theory Spec2Isabelle
  imports Complex_Main "HOL-Library.Word" "HOL-Library.Multiset"
begin

unbundle bit_operations_syntax

section \<open>Python values: exceptions and floating point\<close>

text \<open>
  The exceptions that \<^verbatim>\<open>scripts/nnue/train_nnue.py\<close> can raise on the paths modelled
  below. A function that may raise returns \<open>py_error + 'a\<close>, with \<open>Inl\<close> the exception.
\<close>

datatype py_error =
    ValueError
  | IndexError
  | KeyError
  | OverflowError
  | ZeroDivisionError
  | StructError
  | OSError
  | FileNotFoundError
  | RuntimeError

text \<open>
  Python's \<^verbatim>\<open>float\<close> is an IEEE-754 double. Its arithmetic is not part of the program
  text, so every function that computes with floats takes the arithmetic as a record of
  operations \<open>F\<close> over a type \<open>'f\<close> of float values: what is proved for every \<open>F\<close> holds
  for the doubles of the interpreter. \<open>fle\<close>, \<open>flt\<close> and \<open>feq\<close> are Python's \<^verbatim>\<open><=\<close>,
  \<^verbatim>\<open><\<close> and \<^verbatim>\<open>==\<close> (so \<^verbatim>\<open>a >= b\<close> is \<open>fle F b a\<close> and \<^verbatim>\<open>a != b\<close> is \<open>\<not> feq F a b\<close>);
  \<open>fdiv\<close> is \<open>None\<close> where Python raises \<^verbatim>\<open>ZeroDivisionError\<close>; \<open>flit n\<close> is the float
  of a small integer (the literals \<^verbatim>\<open>0.0\<close>, \<^verbatim>\<open>127.0\<close>, a list length); \<open>fhalf\<close> is the
  literal \<^verbatim>\<open>0.5\<close>; \<open>finf\<close> is \<^verbatim>\<open>math.inf\<close>; \<open>float_of_int\<close> is \<^verbatim>\<open>float(n)\<close> on an
  arbitrary integer, \<open>None\<close> where it raises \<^verbatim>\<open>OverflowError\<close>.
\<close>

record 'f float_ops =
  fadd :: "'f \<Rightarrow> 'f \<Rightarrow> 'f"
  fsub :: "'f \<Rightarrow> 'f \<Rightarrow> 'f"
  fmul :: "'f \<Rightarrow> 'f \<Rightarrow> 'f"
  fdiv :: "'f \<Rightarrow> 'f \<Rightarrow> 'f option"
  fneg :: "'f \<Rightarrow> 'f"
  fabs :: "'f \<Rightarrow> 'f"
  fle :: "'f \<Rightarrow> 'f \<Rightarrow> bool"
  flt :: "'f \<Rightarrow> 'f \<Rightarrow> bool"
  feq :: "'f \<Rightarrow> 'f \<Rightarrow> bool"
  flit :: "int \<Rightarrow> 'f"
  fhalf :: "'f"
  finf :: "'f"
  float_of_int :: "int \<Rightarrow> 'f option"

subsection \<open>Exact arithmetic with the IEEE special values\<close>

text \<open>
  One concrete arithmetic, used to evaluate the model on numbers: the finite values are
  the reals, computed without rounding, together with the two infinities and NaN, which
  behave as in IEEE-754 (NaN compares false with everything, \<open>inf - inf\<close> and \<open>0 * inf\<close>
  are NaN). Division by zero raises, as Python's does.
\<close>

datatype xfloat = Fin real | PInf | NInf | NaN

fun x_neg :: "xfloat \<Rightarrow> xfloat" where
  "x_neg (Fin a) = Fin (- a)"
| "x_neg PInf = NInf"
| "x_neg NInf = PInf"
| "x_neg NaN = NaN"

fun x_abs :: "xfloat \<Rightarrow> xfloat" where
  "x_abs (Fin a) = Fin \<bar>a\<bar>"
| "x_abs PInf = PInf"
| "x_abs NInf = PInf"
| "x_abs NaN = NaN"

fun x_add :: "xfloat \<Rightarrow> xfloat \<Rightarrow> xfloat" where
  "x_add (Fin a) (Fin b) = Fin (a + b)"
| "x_add NaN _ = NaN"
| "x_add _ NaN = NaN"
| "x_add PInf NInf = NaN"
| "x_add NInf PInf = NaN"
| "x_add PInf _ = PInf"
| "x_add _ PInf = PInf"
| "x_add NInf _ = NInf"
| "x_add _ NInf = NInf"

definition x_sub :: "xfloat \<Rightarrow> xfloat \<Rightarrow> xfloat" where
  "x_sub a b = x_add a (x_neg b)"

fun x_scale_inf :: "real \<Rightarrow> xfloat \<Rightarrow> xfloat" where
  "x_scale_inf a i = (if a = 0 then NaN else if 0 < a then i else x_neg i)"

fun x_mul :: "xfloat \<Rightarrow> xfloat \<Rightarrow> xfloat" where
  "x_mul (Fin a) (Fin b) = Fin (a * b)"
| "x_mul NaN _ = NaN"
| "x_mul _ NaN = NaN"
| "x_mul (Fin a) i = x_scale_inf a i"
| "x_mul i (Fin b) = x_scale_inf b i"
| "x_mul PInf i = i"
| "x_mul NInf i = x_neg i"

fun x_div :: "xfloat \<Rightarrow> xfloat \<Rightarrow> xfloat option" where
  "x_div a (Fin b) = (if b = 0 then None else Some (x_mul a (Fin (1 / b))))"
| "x_div NaN _ = Some NaN"
| "x_div _ NaN = Some NaN"
| "x_div (Fin a) _ = Some (Fin 0)"
| "x_div _ _ = Some NaN"

fun x_le :: "xfloat \<Rightarrow> xfloat \<Rightarrow> bool" where
  "x_le (Fin a) (Fin b) = (a \<le> b)"
| "x_le NaN _ = False"
| "x_le _ NaN = False"
| "x_le NInf _ = True"
| "x_le _ PInf = True"
| "x_le _ _ = False"

fun x_eq :: "xfloat \<Rightarrow> xfloat \<Rightarrow> bool" where
  "x_eq NaN _ = False"
| "x_eq _ NaN = False"
| "x_eq a b = (a = b)"

definition x_lt :: "xfloat \<Rightarrow> xfloat \<Rightarrow> bool" where
  "x_lt a b = (x_le a b \<and> \<not> x_eq a b)"

definition exact_ops :: "xfloat float_ops" where
  "exact_ops =
     \<lparr>fadd = x_add, fsub = x_sub, fmul = x_mul, fdiv = x_div, fneg = x_neg, fabs = x_abs,
      fle = x_le, flt = x_lt, feq = x_eq, flit = (\<lambda>n. Fin (of_int n)), fhalf = Fin (1 / 2),
      finf = PInf, float_of_int = (\<lambda>n. Some (Fin (of_int n)))\<rparr>"

section \<open>The Huber loss and its gradient\<close>

text \<open>
  \<^verbatim>\<open>huber_loss\<close> and \<^verbatim>\<open>huber_grad\<close>. In \<^verbatim>\<open>0.5 * error * error\<close> the product associates
  to the left, and \<^verbatim>\<open>error > 0\<close> compares with the integer literal \<^verbatim>\<open>0\<close>.
\<close>

definition huber_loss :: "'f float_ops \<Rightarrow> 'f \<Rightarrow> 'f \<Rightarrow> 'f" where
  "huber_loss F error delta =
     (let abs_err = fabs F error in
      if fle F abs_err delta then fmul F (fmul F (fhalf F) error) error
      else fmul F delta (fsub F abs_err (fmul F (fhalf F) delta)))"

definition huber_grad :: "'f float_ops \<Rightarrow> 'f \<Rightarrow> 'f \<Rightarrow> 'f" where
  "huber_grad F error delta =
     (let abs_err = fabs F error in
      if fle F abs_err delta then error
      else if flt F (flit F 0) error then delta else fneg F delta)"

section \<open>FeatureEncoder: \<^verbatim>\<open>feature_index\<close> and \<^verbatim>\<open>fen_to_features\<close>\<close>

text \<open>
  A Python \<^verbatim>\<open>str\<close> is modelled by a \<open>string\<close> whose characters are the code points
  below 256. On these, \<^verbatim>\<open>str.isdigit\<close> holds for the ASCII digits and for the three
  superscript digits (on which \<^verbatim>\<open>int\<close> raises \<^verbatim>\<open>ValueError\<close>), \<^verbatim>\<open>str.isupper\<close> holds for
  \<open>A-Z\<close> and the accented capitals, and \<^verbatim>\<open>str.lower\<close> moves exactly those by 32.
\<close>

definition char_in :: "char \<Rightarrow> nat \<Rightarrow> nat \<Rightarrow> bool" where
  "char_in c lo hi = (lo \<le> (of_char c :: nat) \<and> (of_char c :: nat) \<le> hi)"

definition py_isspace :: "char \<Rightarrow> bool" where
  "py_isspace c = (char_in c 9 13 \<or> char_in c 28 32 \<or> char_in c 133 133 \<or> char_in c 160 160)"

definition py_isdigit :: "char \<Rightarrow> bool" where
  "py_isdigit c = (char_in c 48 57 \<or> char_in c 178 179 \<or> char_in c 185 185)"

definition py_int_char :: "char \<Rightarrow> py_error + nat" where
  "py_int_char c = (if char_in c 48 57 then Inr ((of_char c :: nat) - 48) else Inl ValueError)"

definition py_isupper :: "char \<Rightarrow> bool" where
  "py_isupper c = (char_in c 65 90 \<or> char_in c 192 214 \<or> char_in c 216 222)"

definition py_lower :: "char \<Rightarrow> char" where
  "py_lower c = (if py_isupper c then char_of ((of_char c :: nat) + 32) else c)"

text \<open>\<^verbatim>\<open>str.split()\<close>: the maximal runs of non-whitespace characters.\<close>

fun split_ws :: "string \<Rightarrow> string list" where
  "split_ws [] = []"
| "split_ws (c # cs) =
     (if py_isspace c then split_ws cs
      else (case cs of
              [] \<Rightarrow> [[c]]
            | d # _ \<Rightarrow>
                if py_isspace d then [c] # split_ws cs
                else (case split_ws cs of [] \<Rightarrow> [[c]] | w # ws \<Rightarrow> (c # w) # ws)))"

text \<open>\<^verbatim>\<open>str.split(sep)\<close> with a one-character separator: empty fields are kept.\<close>

fun split_sep :: "char \<Rightarrow> string \<Rightarrow> string list" where
  "split_sep sep [] = [[]]"
| "split_sep sep (c # cs) =
     (if c = sep then [] # split_sep sep cs
      else (case split_sep sep cs of [] \<Rightarrow> [[c]] | w # ws \<Rightarrow> (c # w) # ws))"

definition PIECE_TYPE_INDEX :: "char \<rightharpoonup> nat" where
  "PIECE_TYPE_INDEX =
     [CHR ''p'' \<mapsto> 0, CHR ''n'' \<mapsto> 1, CHR ''b'' \<mapsto> 2, CHR ''r'' \<mapsto> 3, CHR ''q'' \<mapsto> 4, CHR ''k'' \<mapsto> 5]"

text \<open>
  \<^verbatim>\<open>feature_index\<close>. The dictionary lookup raises \<^verbatim>\<open>KeyError\<close> on any other letter. The
  callers pass \<open>rank_idx\<close> between 0 and 7, so \<open>7 - rank_idx\<close> is not negative.
\<close>

definition feature_index :: "char \<Rightarrow> nat \<Rightarrow> nat \<Rightarrow> py_error + nat" where
  "feature_index piece_char file_idx rank_idx =
     (let color = (if py_isupper piece_char then CHR ''w'' else CHR ''b'') in
      case PIECE_TYPE_INDEX (py_lower piece_char) of
        None \<Rightarrow> Inl KeyError
      | Some type_index \<Rightarrow>
          (let color_offset = (if color = CHR ''w'' then 0 else 6);
               square_index = (if color = CHR ''w'' then rank_idx * 8 + file_idx
                               else (7 - rank_idx) * 8 + file_idx)
           in Inr ((color_offset + type_index) * 64 + square_index)))"

text \<open>The inner loop of \<^verbatim>\<open>fen_to_features\<close>, over the characters of one rank.\<close>

fun rank_features :: "nat \<Rightarrow> nat \<Rightarrow> string \<Rightarrow> py_error + nat list" where
  "rank_features rank_idx file_idx [] = Inr []"
| "rank_features rank_idx file_idx (c # cs) =
     (if py_isdigit c then
        (case py_int_char c of
           Inl e \<Rightarrow> Inl e
         | Inr d \<Rightarrow> rank_features rank_idx (file_idx + d) cs)
      else
        (case feature_index c file_idx rank_idx of
           Inl e \<Rightarrow> Inl e
         | Inr idx \<Rightarrow>
             (case rank_features rank_idx (file_idx + 1) cs of
                Inl e \<Rightarrow> Inl e
              | Inr rest \<Rightarrow> Inr (idx # rest))))"

text \<open>
  The outer loop, over \<^verbatim>\<open>enumerate(ranks)\<close> from \<open>fen_rank\<close> on. It runs only on
  eight ranks, so \<open>fen_rank \<le> 7\<close>.
\<close>

fun ranks_features :: "nat \<Rightarrow> string list \<Rightarrow> py_error + nat list" where
  "ranks_features fen_rank [] = Inr []"
| "ranks_features fen_rank (rank_text # rest) =
     (case rank_features (7 - fen_rank) 0 rank_text of
        Inl e \<Rightarrow> Inl e
      | Inr here \<Rightarrow>
          (case ranks_features (fen_rank + 1) rest of
             Inl e \<Rightarrow> Inl e
           | Inr there \<Rightarrow> Inr (here @ there)))"

definition fen_to_features :: "string \<Rightarrow> py_error + nat list" where
  "fen_to_features fen =
     (case split_ws fen of
        [] \<Rightarrow> Inl IndexError
      | board # _ \<Rightarrow>
          (let ranks = split_sep CHR ''/'' board in
           if length ranks \<noteq> 8 then Inl ValueError
           else ranks_features 0 ranks))"

text \<open>
  The encoding as the specification words it, for comparison with the code: the pieces
  of a board with their file and rank, and the index of a piece from its colour offset,
  its piece type and its square.
\<close>

definition is_piece :: "char \<Rightarrow> bool" where
  "is_piece c = (c \<in> set ''pnbrqkPNBRQK'')"

definition is_white :: "char \<Rightarrow> bool" where
  "is_white c = (c \<in> set ''PNBRQK'')"

definition spec_piece_type :: "char \<Rightarrow> nat" where
  "spec_piece_type c =
     (if c \<in> set ''pP'' then 0 else if c \<in> set ''nN'' then 1 else if c \<in> set ''bB'' then 2
      else if c \<in> set ''rR'' then 3 else if c \<in> set ''qQ'' then 4 else 5)"

definition spec_index :: "char \<times> nat \<times> nat \<Rightarrow> nat" where
  "spec_index p =
     (case p of (c, file, rank) \<Rightarrow>
        ((if is_white c then 0 else 6) + spec_piece_type c) * 64
        + (if is_white c then rank * 8 + file else (7 - rank) * 8 + file))"

fun rank_pieces :: "nat \<Rightarrow> nat \<Rightarrow> string \<Rightarrow> (char \<times> nat \<times> nat) list" where
  "rank_pieces rank file [] = []"
| "rank_pieces rank file (c # cs) =
     (if is_piece c then (c, file, rank) # rank_pieces rank (file + 1) cs
      else rank_pieces rank (file + ((of_char c :: nat) - 48)) cs)"

fun board_pieces :: "nat \<Rightarrow> string list \<Rightarrow> (char \<times> nat \<times> nat) list" where
  "board_pieces k [] = []"
| "board_pieces k (t # ts) = rank_pieces (7 - k) 0 t @ board_pieces (k + 1) ts"

text \<open>
  A well-formed board: every character is a piece letter or an ASCII digit, and every
  piece stands on one of the files 0 to 7.
\<close>

definition board_ok :: "string list \<Rightarrow> bool" where
  "board_ok ranks =
     ((\<forall>t \<in> set ranks. \<forall>c \<in> set t. is_piece c \<or> char_in c 48 57)
      \<and> (\<forall>p \<in> set (board_pieces 0 ranks). fst (snd p) \<le> 7))"

section \<open>Samples and the Splitter: \<^verbatim>\<open>split_by_game\<close>\<close>

text \<open>The dictionary built for every accepted row of the dataset.\<close>

record 'f sample =
  features :: "nat list"
  label :: 'f
  label16 :: "'f option"
  gameId :: int

text \<open>
  \<^verbatim>\<open>split_by_game\<close>. The generator \<^verbatim>\<open>random.Random(seed)\<close> and its \<^verbatim>\<open>shuffle\<close> belong to
  the Python library: \<open>shuffle seed xs\<close> stands for the list that \<^verbatim>\<open>rng.shuffle\<close> leaves
  behind. \<^verbatim>\<open>sorted\<close> of the set of identifiers is \<open>sort (remdups ...)\<close>. The cutoff
  \<^verbatim>\<open>int(len(games) * 0.9)\<close> is written with the exact product: the double nearest to 0.9
  exceeds it by less than \<open>3 / 10 ^ 17\<close>, so for every length below \<open>2 ^ 49\<close> the rounded
  product truncates to the same integer.
\<close>

definition split_by_game ::
  "(int \<Rightarrow> int list \<Rightarrow> int list) \<Rightarrow> 'f sample list \<Rightarrow> int \<Rightarrow> 'f sample list \<times> 'f sample list" where
  "split_by_game shuffle samples seed =
     (let games = shuffle seed (sort (remdups (map gameId samples)));
          cutoff = nat \<lfloor>real (length games) * (9 / 10)\<rfloor>;
          train_games = set (take cutoff games);
          train = filter (\<lambda>s. gameId s \<in> train_games) samples;
          val = filter (\<lambda>s. gameId s \<notin> train_games) samples
      in (train, val))"

text \<open>
  The training group as the specification words it: the first \<open>\<lfloor>0.9 G\<rfloor>\<close> of the
  shuffled distinct game identifiers, \<open>G\<close> being their number.
\<close>

definition spec_train_group ::
  "(int \<Rightarrow> int list \<Rightarrow> int list) \<Rightarrow> 'f sample list \<Rightarrow> int \<Rightarrow> int set" where
  "spec_train_group shuffle samples seed =
     set (take (9 * card (gameId ` set samples) div 10)
            (shuffle seed (sorted_list_of_set (gameId ` set samples))))"

section \<open>Model: \<^verbatim>\<open>NnueModel\<close>\<close>

text \<open>
  The parameters of the network. The rows of \<open>w1\<close> are separate lists in the program
  (\<^verbatim>\<open>__init__\<close> builds each one, the snapshot copies each one), so a list of lists models
  them. Every subscript of the source is checked here: out of range is \<^verbatim>\<open>IndexError\<close>.
  Feature indices are never negative (see the encoder), so they are naturals.
\<close>

record 'f nnue_model =
  input_size :: nat
  hidden_size :: nat
  w1 :: "'f list list"
  b1 :: "'f list"
  w2 :: "'f list"
  b2 :: 'f

definition RELU_CAP :: "'f float_ops \<Rightarrow> 'f" where
  "RELU_CAP F = flit F 127"

text \<open>\<^verbatim>\<open>for i in range(self.hidden_size): hidden[i] += row[i]\<close>\<close>

fun add_row :: "'f float_ops \<Rightarrow> 'f list \<Rightarrow> nat list \<Rightarrow> 'f list \<Rightarrow> py_error + 'f list" where
  "add_row F row [] hidden = Inr hidden"
| "add_row F row (i # rest) hidden =
     (if i < length hidden \<and> i < length row
      then add_row F row rest (hidden[i := fadd F (hidden ! i) (row ! i)])
      else Inl IndexError)"

text \<open>\<^verbatim>\<open>for idx in features: row = self.w1[idx]; ...\<close>\<close>

fun add_rows :: "'f float_ops \<Rightarrow> 'f list list \<Rightarrow> nat \<Rightarrow> nat list \<Rightarrow> 'f list \<Rightarrow> py_error + 'f list" where
  "add_rows F rows h [] hidden = Inr hidden"
| "add_rows F rows h (idx # rest) hidden =
     (if idx < length rows then
        (case add_row F (rows ! idx) [0..<h] hidden of
           Inl e \<Rightarrow> Inl e
         | Inr hidden' \<Rightarrow> add_rows F rows h rest hidden')
      else Inl IndexError)"

text \<open>The clamping loop: at most 0 gives 0.0, at least the cap gives the cap, else active.\<close>

fun activate ::
  "'f float_ops \<Rightarrow> nat list \<Rightarrow> 'f list \<times> bool list \<Rightarrow> py_error + 'f list \<times> bool list" where
  "activate F [] ha = Inr ha"
| "activate F (i # rest) (hidden, active) =
     (if i < length hidden then
        (let v = hidden ! i in
         if fle F v (flit F 0) then activate F rest (hidden[i := flit F 0], active)
         else if fle F (RELU_CAP F) v then activate F rest (hidden[i := RELU_CAP F], active)
         else if i < length active then activate F rest (hidden, active[i := True])
         else Inl IndexError)
      else Inl IndexError)"

text \<open>\<^verbatim>\<open>if hidden[i] != 0.0: output += hidden[i] * self.w2[i]\<close>\<close>

fun output_sum :: "'f float_ops \<Rightarrow> 'f list \<Rightarrow> 'f list \<Rightarrow> nat list \<Rightarrow> 'f \<Rightarrow> py_error + 'f" where
  "output_sum F hidden ws [] out = Inr out"
| "output_sum F hidden ws (i # rest) out =
     (if i < length hidden then
        (if \<not> feq F (hidden ! i) (flit F 0) then
           (if i < length ws
            then output_sum F hidden ws rest (fadd F out (fmul F (hidden ! i) (ws ! i)))
            else Inl IndexError)
         else output_sum F hidden ws rest out)
      else Inl IndexError)"

definition forward ::
  "'f float_ops \<Rightarrow> 'f nnue_model \<Rightarrow> nat list \<Rightarrow> py_error + 'f \<times> 'f list \<times> bool list" where
  "forward F m feats =
     (case add_rows F (w1 m) (hidden_size m) feats (b1 m) of
        Inl e \<Rightarrow> Inl e
      | Inr summed \<Rightarrow>
          (case activate F [0..<hidden_size m] (summed, replicate (hidden_size m) False) of
             Inl e \<Rightarrow> Inl e
           | Inr (hidden, active) \<Rightarrow>
               (case output_sum F hidden (w2 m) [0..<hidden_size m] (b2 m) of
                  Inl e \<Rightarrow> Inl e
                | Inr out \<Rightarrow> Inr (out, hidden, active))))"

definition predict :: "'f float_ops \<Rightarrow> 'f nnue_model \<Rightarrow> nat list \<Rightarrow> py_error + 'f" where
  "predict F m feats = (case forward F m feats of Inl e \<Rightarrow> Inl e | Inr (out, _, _) \<Rightarrow> Inr out)"

text \<open>
  The iterations in \<^verbatim>\<open>train_sample\<close> update the lists in place, so each returns the list as
  it stands together with the exception, if one was raised on the way.
  \<^verbatim>\<open>if hidden[i] != 0.0: self.w2[i] -= lr * grad * hidden[i]\<close>, with \<open>c\<close> for
  \<^verbatim>\<open>lr * grad\<close>:
\<close>

fun update_w2 ::
  "'f float_ops \<Rightarrow> 'f \<Rightarrow> 'f list \<Rightarrow> nat list \<Rightarrow> 'f list \<Rightarrow> 'f list \<times> py_error option" where
  "update_w2 F c hidden [] ws = (ws, None)"
| "update_w2 F c hidden (i # rest) ws =
     (if i < length hidden then
        (if \<not> feq F (hidden ! i) (flit F 0) then
           (if i < length ws
            then update_w2 F c hidden rest (ws[i := fsub F (ws ! i) (fmul F c (hidden ! i))])
            else (ws, Some IndexError))
         else update_w2 F c hidden rest ws)
      else (ws, Some IndexError))"

text \<open>\<^verbatim>\<open>for idx in features: self.w1[idx][i] -= lr * g\<close>, with \<open>d\<close> for \<^verbatim>\<open>lr * g\<close>:\<close>

fun update_column ::
  "'f float_ops \<Rightarrow> 'f \<Rightarrow> nat \<Rightarrow> nat list \<Rightarrow> 'f list list \<Rightarrow> 'f list list \<times> py_error option" where
  "update_column F d i [] rows = (rows, None)"
| "update_column F d i (idx # rest) rows =
     (if idx < length rows \<and> i < length (rows ! idx)
      then update_column F d i rest (rows[idx := (rows ! idx)[i := fsub F (rows ! idx ! i) d]])
      else (rows, Some IndexError))"

text \<open>
  The loop over the hidden units: a unit that is not active, or whose share
  \<^verbatim>\<open>g = grad * w2_snapshot[i]\<close> equals 0.0, is skipped.
\<close>

fun update_hidden ::
  "'f float_ops \<Rightarrow> 'f \<Rightarrow> 'f \<Rightarrow> 'f list \<Rightarrow> bool list \<Rightarrow> nat list \<Rightarrow> nat list \<Rightarrow>
   'f list list \<times> 'f list \<Rightarrow> ('f list list \<times> 'f list) \<times> py_error option" where
  "update_hidden F lr grad w2_snapshot active feats [] wb = (wb, None)"
| "update_hidden F lr grad w2_snapshot active feats (i # rest) (rows, bs) =
     (if i < length active then
        (if \<not> active ! i then update_hidden F lr grad w2_snapshot active feats rest (rows, bs)
         else if i < length w2_snapshot then
           (let g = fmul F grad (w2_snapshot ! i) in
            if feq F g (flit F 0) then update_hidden F lr grad w2_snapshot active feats rest (rows, bs)
            else if i < length bs then
              (let bs' = bs[i := fsub F (bs ! i) (fmul F lr g)] in
               case update_column F (fmul F lr g) i feats rows of
                 (rows', Some e) \<Rightarrow> ((rows', bs'), Some e)
               | (rows', None) \<Rightarrow> update_hidden F lr grad w2_snapshot active feats rest (rows', bs'))
            else ((rows, bs), Some IndexError))
         else ((rows, bs), Some IndexError))
      else ((rows, bs), Some IndexError))"

text \<open>
  \<^verbatim>\<open>train_sample\<close>: the model after the call, and the loss or the exception. An
  exception of the forward pass leaves the model as it was.
\<close>

definition train_sample ::
  "'f float_ops \<Rightarrow> 'f nnue_model \<Rightarrow> nat list \<Rightarrow> 'f \<Rightarrow> 'f \<Rightarrow> 'f \<Rightarrow> 'f nnue_model \<times> (py_error + 'f)" where
  "train_sample F m feats lbl lr delta =
     (case forward F m feats of
        Inl e \<Rightarrow> (m, Inl e)
      | Inr (out, hidden, active) \<Rightarrow>
          (let err = fsub F out lbl;
               grad = huber_grad F err delta;
               w2_snapshot = w2 m
           in case update_w2 F (fmul F lr grad) hidden [0..<hidden_size m] (w2 m) of
                (ws, Some e) \<Rightarrow> (m\<lparr>w2 := ws\<rparr>, Inl e)
              | (ws, None) \<Rightarrow>
                  (let m1 = m\<lparr>w2 := ws, b2 := fsub F (b2 m) (fmul F lr grad)\<rparr> in
                   case update_hidden F lr grad w2_snapshot active feats [0..<hidden_size m]
                          (w1 m1, b1 m1) of
                     ((rows, bs), Some e) \<Rightarrow> (m1\<lparr>w1 := rows, b1 := bs\<rparr>, Inl e)
                   | ((rows, bs), None) \<Rightarrow>
                       (m1\<lparr>w1 := rows, b1 := bs\<rparr>, Inr (huber_loss F err delta)))))"

section \<open>Trainer: the epoch loop of \<^verbatim>\<open>main\<close>\<close>

text \<open>\<^verbatim>\<open>evaluate\<close>: the mean Huber loss over a sample set, 0.0 on the empty set.\<close>

fun evaluate_sum ::
  "'f float_ops \<Rightarrow> 'f nnue_model \<Rightarrow> 'f \<Rightarrow> 'f sample list \<Rightarrow> 'f \<Rightarrow> py_error + 'f" where
  "evaluate_sum F m delta [] tot = Inr tot"
| "evaluate_sum F m delta (s # rest) tot =
     (case predict F m (features s) of
        Inl e \<Rightarrow> Inl e
      | Inr pred \<Rightarrow>
          evaluate_sum F m delta rest (fadd F tot (huber_loss F (fsub F pred (label s)) delta)))"

definition evaluate :: "'f float_ops \<Rightarrow> 'f nnue_model \<Rightarrow> 'f sample list \<Rightarrow> 'f \<Rightarrow> py_error + 'f" where
  "evaluate F m samples delta =
     (if samples = [] then Inr (flit F 0)
      else case evaluate_sum F m delta samples (flit F 0) of
             Inl e \<Rightarrow> Inl e
           | Inr tot \<Rightarrow>
               (case fdiv F tot (flit F (int (length samples))) of
                  None \<Rightarrow> Inl ZeroDivisionError
                | Some mean \<Rightarrow> Inr mean))"

text \<open>
  \<^verbatim>\<open>for sample in train: total_loss += model.train_sample(...)\<close>, and the division by
  \<^verbatim>\<open>max(1, len(train))\<close> that follows it.
\<close>

fun train_pass ::
  "'f float_ops \<Rightarrow> 'f \<Rightarrow> 'f \<Rightarrow> 'f sample list \<Rightarrow> 'f nnue_model \<Rightarrow> 'f \<Rightarrow> py_error + 'f nnue_model \<times> 'f" where
  "train_pass F lr delta [] m total_loss = Inr (m, total_loss)"
| "train_pass F lr delta (s # rest) m total_loss =
     (case train_sample F m (features s) (label s) lr delta of
        (_, Inl e) \<Rightarrow> Inl e
      | (m', Inr loss) \<Rightarrow> train_pass F lr delta rest m' (fadd F total_loss loss))"

definition train_epoch ::
  "'f float_ops \<Rightarrow> 'f \<Rightarrow> 'f \<Rightarrow> 'f sample list \<Rightarrow> 'f nnue_model \<Rightarrow> py_error + 'f nnue_model \<times> 'f" where
  "train_epoch F lr delta train m =
     (case train_pass F lr delta train m (flit F 0) of
        Inl e \<Rightarrow> Inl e
      | Inr (m', total_loss) \<Rightarrow>
          (case fdiv F total_loss (flit F (max 1 (int (length train)))) of
             None \<Rightarrow> Inl ZeroDivisionError
           | Some train_loss \<Rightarrow> Inr (m', train_loss)))"

text \<open>The hyperparameters of the command line that the loop reads.\<close>

record 'f train_args =
  epochs :: int
  lr :: 'f
  huberDelta :: 'f
  minEpochs :: int
  patience :: int

text \<open>The variables of the loop. A snapshot is the tuple of copies of the four parameters.\<close>

type_synonym 'f snapshot = "'f list list \<times> 'f list \<times> 'f list \<times> 'f"

record 'f loop_state =
  model :: "'f nnue_model"
  history :: "(nat \<times> 'f \<times> 'f) list"
  best_val :: 'f
  best_epoch :: nat
  best_snapshot :: "'f snapshot option"
  patience_left :: int

definition take_snapshot :: "'f nnue_model \<Rightarrow> 'f snapshot" where
  "take_snapshot m = (w1 m, b1 m, w2 m, b2 m)"

text \<open>
  One turn of \<^verbatim>\<open>for epoch in range(args.epochs)\<close>: the state after it and whether the
  loop breaks. The training pass over the train set and the evaluation on the validation
  set are the arguments \<open>train_ep\<close> and \<open>eval_val\<close>; \<open>training\<close> below passes the
  program's own.
\<close>

definition epoch_body ::
  "'f float_ops \<Rightarrow> 'f train_args \<Rightarrow> ('f nnue_model \<Rightarrow> py_error + 'f nnue_model \<times> 'f) \<Rightarrow>
   ('f nnue_model \<Rightarrow> py_error + 'f) \<Rightarrow> 'f loop_state \<Rightarrow> nat \<Rightarrow> py_error + 'f loop_state \<times> bool" where
  "epoch_body F args train_ep eval_val st epoch =
     (case train_ep (model st) of
        Inl e \<Rightarrow> Inl e
      | Inr (m', train_loss) \<Rightarrow>
          (case eval_val m' of
             Inl e \<Rightarrow> Inl e
           | Inr val_loss \<Rightarrow>
               (let st1 = st\<lparr>model := m', history := history st @ [(epoch + 1, train_loss, val_loss)]\<rparr> in
                if flt F val_loss (best_val st1) then
                  Inr (st1\<lparr>best_val := val_loss, best_epoch := epoch + 1,
                            best_snapshot := Some (take_snapshot m'),
                            patience_left := patience args\<rparr>, False)
                else if minEpochs args \<le> int epoch + 1 then
                  (let st2 = st1\<lparr>patience_left := patience_left st1 - 1\<rparr>
                   in Inr (st2, patience_left st2 \<le> 0))
                else Inr (st1, False))))"

fun run_epochs ::
  "'f float_ops \<Rightarrow> 'f train_args \<Rightarrow> ('f nnue_model \<Rightarrow> py_error + 'f nnue_model \<times> 'f) \<Rightarrow>
   ('f nnue_model \<Rightarrow> py_error + 'f) \<Rightarrow> nat list \<Rightarrow> 'f loop_state \<Rightarrow> py_error + 'f loop_state" where
  "run_epochs F args train_ep eval_val [] st = Inr st"
| "run_epochs F args train_ep eval_val (epoch # rest) st =
     (case epoch_body F args train_ep eval_val st epoch of
        Inl e \<Rightarrow> Inl e
      | Inr (st', brk) \<Rightarrow> if brk then Inr st' else run_epochs F args train_ep eval_val rest st')"

definition initial_state :: "'f float_ops \<Rightarrow> 'f train_args \<Rightarrow> 'f nnue_model \<Rightarrow> 'f loop_state" where
  "initial_state F args m =
     \<lparr>model = m, history = [], best_val = finf F, best_epoch = 0, best_snapshot = None,
      patience_left = patience args\<rparr>"

text \<open>\<^verbatim>\<open>if best_snapshot is not None: model.w1, model.b1, model.w2, model.b2 = best_snapshot\<close>\<close>

definition restore_best :: "'f loop_state \<Rightarrow> 'f loop_state" where
  "restore_best st =
     (case best_snapshot st of
        None \<Rightarrow> st
      | Some (sw1, sb1, sw2, sb2) \<Rightarrow> st\<lparr>model := (model st)\<lparr>w1 := sw1, b1 := sb1, w2 := sw2, b2 := sb2\<rparr>\<rparr>)"

definition train_loop ::
  "'f float_ops \<Rightarrow> 'f train_args \<Rightarrow> ('f nnue_model \<Rightarrow> py_error + 'f nnue_model \<times> 'f) \<Rightarrow>
   ('f nnue_model \<Rightarrow> py_error + 'f) \<Rightarrow> 'f nnue_model \<Rightarrow> py_error + 'f loop_state" where
  "train_loop F args train_ep eval_val m =
     (case run_epochs F args train_ep eval_val [0..<nat (epochs args)] (initial_state F args m) of
        Inl e \<Rightarrow> Inl e
      | Inr st \<Rightarrow> Inr (restore_best st))"

text \<open>Lines 383 to 416 of \<^verbatim>\<open>main\<close>, from the fresh model to the restored parameters.\<close>

definition training ::
  "'f float_ops \<Rightarrow> 'f train_args \<Rightarrow> 'f nnue_model \<Rightarrow> 'f sample list \<Rightarrow> 'f sample list \<Rightarrow>
   py_error + 'f loop_state" where
  "training F args m train val =
     train_loop F args (train_epoch F (lr args) (huberDelta args) train)
       (\<lambda>m'. evaluate F m' val (huberDelta args)) m"

text \<open>
  For the statement about the loop: the model after \<open>k\<close> training passes, \<open>None\<close> when
  one of them raised, and the validation losses that a loop state has recorded.
\<close>

fun model_after ::
  "('f nnue_model \<Rightarrow> py_error + 'f nnue_model \<times> 'f) \<Rightarrow> 'f nnue_model \<Rightarrow> nat \<Rightarrow> 'f nnue_model option" where
  "model_after train_ep m 0 = Some m"
| "model_after train_ep m (Suc k) =
     (case model_after train_ep m k of
        None \<Rightarrow> None
      | Some mk \<Rightarrow> (case train_ep mk of Inl e \<Rightarrow> None | Inr (m', _) \<Rightarrow> Some m'))"

definition val_losses :: "'f loop_state \<Rightarrow> 'f list" where
  "val_losses st = map (\<lambda>h. snd (snd h)) (history st)"

text \<open>
  On a set \<open>V\<close> of loss values, \<^verbatim>\<open><\<close> is a strict weak order: irreflexive, transitive,
  and whatever lies below \<open>b\<close> lies below \<open>c\<close> or has \<open>c\<close> below \<open>b\<close>. The doubles without
  NaN are ordered so.
\<close>

definition ordered_on :: "'f float_ops \<Rightarrow> 'f set \<Rightarrow> bool" where
  "ordered_on F V =
     ((\<forall>a \<in> V. \<not> flt F a a)
      \<and> (\<forall>a \<in> V. \<forall>b \<in> V. \<forall>c \<in> V. flt F a b \<and> flt F b c \<longrightarrow> flt F a c)
      \<and> (\<forall>a \<in> V. \<forall>b \<in> V. \<forall>c \<in> V. flt F a b \<longrightarrow> flt F a c \<or> flt F c b))"

text \<open>
  What holds of the loop variables after \<open>k\<close> epochs: the live model is the model after
  \<open>k\<close> passes; as long as no loss was below \<^verbatim>\<open>math.inf\<close> there is no snapshot; afterwards
  the snapshot is that of the model after \<open>best_epoch\<close> passes, whose loss is \<open>best_val\<close>,
  which no recorded loss undercuts and which undercuts every loss recorded before it.
\<close>

definition loop_inv ::
  "'f float_ops \<Rightarrow> ('f nnue_model \<Rightarrow> py_error + 'f nnue_model \<times> 'f) \<Rightarrow> 'f nnue_model \<Rightarrow>
   nat \<Rightarrow> 'f loop_state \<Rightarrow> bool" where
  "loop_inv F train_ep m0 k st =
     (model_after train_ep m0 k = Some (model st)
      \<and> length (history st) = k
      \<and> best_epoch st \<le> k
      \<and> (best_epoch st = 0 \<longrightarrow>
            best_snapshot st = None \<and> best_val st = finf F
          \<and> (\<forall>v \<in> set (val_losses st). \<not> flt F v (finf F)))
      \<and> (0 < best_epoch st \<longrightarrow>
            (\<exists>mb. model_after train_ep m0 (best_epoch st) = Some mb
                \<and> best_snapshot st = Some (take_snapshot mb))
          \<and> best_val st = val_losses st ! (best_epoch st - 1)
          \<and> (\<forall>v \<in> set (val_losses st). \<not> flt F v (best_val st))
          \<and> (\<forall>j < best_epoch st - 1. flt F (best_val st) (val_losses st ! j))))"

text \<open>
  The run of the loop, turn by turn: the loop variables after \<open>k\<close> turns of the body,
  with the break flag of the \<open>k\<close>-th turn, or \<open>None\<close> when a turn raised. The body runs on
  the epoch numbers 0, 1, 2, ... in order.
\<close>

fun state_after ::
  "'f float_ops \<Rightarrow> 'f train_args \<Rightarrow> ('f nnue_model \<Rightarrow> py_error + 'f nnue_model \<times> 'f) \<Rightarrow>
   ('f nnue_model \<Rightarrow> py_error + 'f) \<Rightarrow> 'f nnue_model \<Rightarrow> nat \<Rightarrow> ('f loop_state \<times> bool) option" where
  "state_after F args train_ep eval_val m0 0 = Some (initial_state F args m0, False)"
| "state_after F args train_ep eval_val m0 (Suc k) =
     (case state_after F args train_ep eval_val m0 k of
        None \<Rightarrow> None
      | Some (st, _) \<Rightarrow>
          (case epoch_body F args train_ep eval_val st k of
             Inl e \<Rightarrow> None
           | Inr (st', brk) \<Rightarrow> Some (st', brk)))"

section \<open>WeightSerializer: \<^verbatim>\<open>write_snnue\<close>\<close>

type_synonym byte = "8 word"

definition MAGIC :: "byte list" where
  "MAGIC = [0x53, 0x4E, 0x4E, 0x31]"

definition VERSION :: nat where
  "VERSION = 1"

definition FLAGS :: nat where
  "FLAGS = 0"

text \<open>\<^verbatim>\<open>struct.pack("<H", n)\<close> for \<open>n\<close> up to 65535, and the four bytes of a 32-bit pattern.\<close>

definition le16 :: "nat \<Rightarrow> byte list" where
  "le16 n = [of_nat n, of_nat (n div 256)]"

definition le32 :: "32 word \<Rightarrow> byte list" where
  "le32 w = [ucast w, ucast (drop_bit 8 w), ucast (drop_bit 16 w), ucast (drop_bit 24 w)]"

text \<open>
  \<^verbatim>\<open>struct.pack("<HHHH", ...)\<close> raises \<^verbatim>\<open>struct.error\<close> on a number above 65535.
\<close>

definition pack_header :: "nat \<Rightarrow> nat \<Rightarrow> py_error + byte list" where
  "pack_header n h =
     (if n \<le> 65535 \<and> h \<le> 65535 \<and> VERSION \<le> 65535 \<and> FLAGS \<le> 65535
      then Inr (le16 n @ le16 h @ le16 VERSION @ le16 FLAGS)
      else Inl StructError)"

text \<open>
  \<^verbatim>\<open>handle.write(struct.pack("<f", float(value)))\<close> over a list of values. The conversion
  of a double to its nearest single is the argument \<open>pack\<close>: the bit pattern, or \<open>None\<close>
  where \<^verbatim>\<open>struct.pack\<close> raises \<^verbatim>\<open>OverflowError\<close>. The bytes written so far stay in the
  file when an exception ends the loop.
\<close>

fun write_floats ::
  "('f \<Rightarrow> 32 word option) \<Rightarrow> 'f list \<Rightarrow> byte list \<Rightarrow> byte list \<times> py_error option" where
  "write_floats pack [] out = (out, None)"
| "write_floats pack (v # vs) out =
     (case pack v of
        None \<Rightarrow> (out, Some OverflowError)
      | Some w \<Rightarrow> write_floats pack vs (out @ le32 w))"

fun write_rows ::
  "('f \<Rightarrow> 32 word option) \<Rightarrow> 'f list list \<Rightarrow> byte list \<Rightarrow> byte list \<times> py_error option" where
  "write_rows pack [] out = (out, None)"
| "write_rows pack (row # rows) out =
     (case write_floats pack row out of
        (out', Some e) \<Rightarrow> (out', Some e)
      | (out', None) \<Rightarrow> write_rows pack rows out')"

text \<open>
  The file system: the content of each file, and whether \<^verbatim>\<open>os.makedirs\<close> on the
  directory of a path followed by \<^verbatim>\<open>open(path, "wb")\<close> succeeds.
\<close>

record filesystem =
  files :: "string \<rightharpoonup> byte list"
  can_create :: "string \<Rightarrow> bool"

text \<open>
  \<^verbatim>\<open>write_snnue\<close>: the file system after the call and the exception, if any. Opening
  with \<^verbatim>\<open>"wb"\<close> empties the file; leaving the \<^verbatim>\<open>with\<close> block closes it, on an exception
  too, so what was written is in the file. \<^verbatim>\<open>handle.tell()\<close> after the flush is the
  number of bytes written.
\<close>

definition write_snnue ::
  "('f \<Rightarrow> 32 word option) \<Rightarrow> filesystem \<Rightarrow> string \<Rightarrow> nat \<Rightarrow> nat \<Rightarrow>
   'f list list \<Rightarrow> 'f list \<Rightarrow> 'f list \<Rightarrow> 'f \<Rightarrow> filesystem \<times> py_error option" where
  "write_snnue pack fs path n h rows bs ws b =
     (let float_count = n * h + h + h + 1;
          byte_length = 12 + float_count * 4
      in if \<not> can_create fs path then (fs, Some OSError)
         else
           (let store = (\<lambda>out. fs\<lparr>files := (files fs)(path \<mapsto> out)\<rparr>);
                out0 = MAGIC
            in case pack_header n h of
                 Inl e \<Rightarrow> (store out0, Some e)
               | Inr hdr \<Rightarrow>
                   (case write_rows pack rows (out0 @ hdr) of
                      (out1, Some e) \<Rightarrow> (store out1, Some e)
                    | (out1, None) \<Rightarrow>
                        (case write_floats pack bs out1 of
                           (out2, Some e) \<Rightarrow> (store out2, Some e)
                         | (out2, None) \<Rightarrow>
                             (case write_floats pack ws out2 of
                                (out3, Some e) \<Rightarrow> (store out3, Some e)
                              | (out3, None) \<Rightarrow>
                                  (case write_floats pack [b] out3 of
                                     (out4, Some e) \<Rightarrow> (store out4, Some e)
                                   | (out4, None) \<Rightarrow>
                                       if length out4 \<noteq> byte_length
                                       then (store out4, Some ValueError)
                                       else (store out4, None)))))))"

text \<open>
  Reading the file back, as a consumer of the format does: the 32-bit pattern of four
  little-endian bytes, and the patterns of a sequence of bytes, four at a time.
\<close>

fun of_le32 :: "byte list \<Rightarrow> 32 word" where
  "of_le32 [a, b, c, d] =
     ucast a OR push_bit 8 (ucast b) OR push_bit 16 (ucast c) OR push_bit 24 (ucast d)"
| "of_le32 _ = 0"

fun decode_floats :: "byte list \<Rightarrow> 32 word list" where
  "decode_floats (a # b # c # d # rest) = of_le32 [a, b, c, d] # decode_floats rest"
| "decode_floats _ = []"

section \<open>SampleLoader: one row of \<^verbatim>\<open>load_samples\<close>\<close>

text \<open>
  A JSON number is an integer or a float; \<^verbatim>\<open>float(x)\<close> converts it. A row of the
  dataset is its parsed fields, \<open>None\<close> for a key that is missing or \<^verbatim>\<open>null\<close>;
  \<open>row_timeoutNearby\<close> is the truth value of that field.
\<close>

datatype 'f json_num = JInt int | JFloat 'f

fun py_float :: "'f float_ops \<Rightarrow> 'f json_num \<Rightarrow> py_error + 'f" where
  "py_float F (JInt n) = (case float_of_int F n of None \<Rightarrow> Inl OverflowError | Some x \<Rightarrow> Inr x)"
| "py_float F (JFloat x) = Inr x"

record 'f row =
  row_gameId :: "int option"
  row_runId :: "string option"
  row_timeoutNearby :: bool
  row_evalCp :: "'f json_num option"
  row_mateIn :: "'f json_num option"
  row_fen :: "string option"
  row_evalCp16 :: "'f json_num option"

text \<open>
  What the loader reads besides the dataset: the timeout dictionary of a run
  (\<^verbatim>\<open>load_timeout_map_for_run\<close>, \<open>None\<close> when there is none), and the annotated file of a
  game: \<open>None\<close> when the file is missing, else its \<^verbatim>\<open>meta.engineColor\<close>, if it has one.
  A dictionary from game to timeout moves is an association list; \<open>[]\<close> is \<^verbatim>\<open>{}\<close>.
\<close>

record loader_env =
  run_summary :: "string \<Rightarrow> (int \<times> int) list option"
  annotated :: "string \<Rightarrow> int \<Rightarrow> string option option"

record skipped =
  timeoutGame :: nat
  timeoutNearby :: nat
  mate :: nat
  missingTimeoutSummary :: nat

record 'f loader_state =
  cache :: "string \<times> int \<rightharpoonup> string"
  timeout_cache :: "string \<rightharpoonup> (int \<times> int) list"
  samples :: "'f sample list"
  skips :: skipped

definition load_engine_color ::
  "loader_env \<Rightarrow> string \<Rightarrow> int \<Rightarrow> (string \<times> int \<rightharpoonup> string) \<Rightarrow>
   (py_error + string) \<times> (string \<times> int \<rightharpoonup> string)" where
  "load_engine_color env run_id game_id ch =
     (case ch (run_id, game_id) of
        Some c \<Rightarrow> (Inr c, ch)
      | None \<Rightarrow>
          (case annotated env run_id game_id of
             None \<Rightarrow> (Inl FileNotFoundError, ch)
           | Some None \<Rightarrow> (Inl ValueError, ch)
           | Some (Some engine_color) \<Rightarrow>
               if engine_color \<noteq> ''w'' \<and> engine_color \<noteq> ''b'' then (Inl ValueError, ch)
               else (Inr engine_color, ch((run_id, game_id) \<mapsto> engine_color))))"

text \<open>\<^verbatim>\<open>float(x) if engine_color == "w" else -float(x)\<close>\<close>

definition signed_label :: "'f float_ops \<Rightarrow> string \<Rightarrow> 'f json_num \<Rightarrow> py_error + 'f" where
  "signed_label F engine_color x =
     (case py_float F x of
        Inl e \<Rightarrow> Inl e
      | Inr v \<Rightarrow> Inr (if engine_color = ''w'' then v else fneg F v))"

text \<open>
  The body of \<^verbatim>\<open>for line in handle\<close> on one parsed row: the loader state after it, and
  whether a sample was appended (only then is \<^verbatim>\<open>max_samples\<close> looked at). The label
  statistics, which do not enter the samples, are left out.
\<close>

definition process_row ::
  "'f float_ops \<Rightarrow> loader_env \<Rightarrow> (int \<times> int) list option \<Rightarrow> 'f loader_state \<Rightarrow> 'f row \<Rightarrow>
   py_error + 'f loader_state \<times> bool" where
  "process_row F env timeout_map st r =
     (case row_gameId r of
        None \<Rightarrow> Inl KeyError
      | Some game_id \<Rightarrow>
          (case row_runId r of
             None \<Rightarrow> Inl ValueError
           | Some run_id \<Rightarrow>
               if run_id = [] then Inl ValueError
               else
                 (let tc = (case timeout_map of
                              Some _ \<Rightarrow> timeout_cache st
                            | None \<Rightarrow>
                                (case timeout_cache st run_id of
                                   Some _ \<Rightarrow> timeout_cache st
                                 | None \<Rightarrow>
                                     (timeout_cache st)
                                       (run_id \<mapsto> (case run_summary env run_id of None \<Rightarrow> [] | Some d \<Rightarrow> d))));
                      st1 = st\<lparr>timeout_cache := tc\<rparr>;
                      table = (case timeout_map of Some d \<Rightarrow> d | None \<Rightarrow> (case tc run_id of Some d \<Rightarrow> d | None \<Rightarrow> []));
                      game_timeout = (case map_of table game_id of None \<Rightarrow> 0 | Some t \<Rightarrow> t)
                  in if timeout_map = None \<and> table = [] then
                       Inr (st1\<lparr>skips := (skips st1)\<lparr>missingTimeoutSummary := missingTimeoutSummary (skips st1) + 1\<rparr>\<rparr>, False)
                     else if game_timeout \<noteq> 0 then
                       Inr (st1\<lparr>skips := (skips st1)\<lparr>timeoutGame := timeoutGame (skips st1) + 1\<rparr>\<rparr>, False)
                     else if row_timeoutNearby r then
                       Inr (st1\<lparr>skips := (skips st1)\<lparr>timeoutNearby := timeoutNearby (skips st1) + 1\<rparr>\<rparr>, False)
                     else
                       (case (row_evalCp r, row_mateIn r) of
                          (Some eval_cp, None) \<Rightarrow>
                            (case load_engine_color env run_id game_id (cache st1) of
                               (Inl e, _) \<Rightarrow> Inl e
                             | (Inr engine_color, ch) \<Rightarrow>
                                 (case signed_label F engine_color eval_cp of
                                    Inl e \<Rightarrow> Inl e
                                  | Inr lbl \<Rightarrow>
                                      (case row_fen r of
                                         None \<Rightarrow> Inl KeyError
                                       | Some fen \<Rightarrow>
                                           (case fen_to_features fen of
                                              Inl e \<Rightarrow> Inl e
                                            | Inr feats \<Rightarrow>
                                                (case (case row_evalCp16 r of
                                                         None \<Rightarrow> Inr None
                                                       | Some eval_cp16 \<Rightarrow>
                                                           (case signed_label F engine_color eval_cp16 of
                                                              Inl e \<Rightarrow> Inl e
                                                            | Inr l16 \<Rightarrow> Inr (Some l16))) of
                                                   Inl e \<Rightarrow> Inl e
                                                 | Inr lbl16 \<Rightarrow>
                                                     Inr (st1\<lparr>cache := ch,
                                                              samples := samples st1 @
                                                                [\<lparr>features = feats, label = lbl,
                                                                  label16 = lbl16, gameId = game_id\<rparr>]\<rparr>,
                                                          True))))))
                        | _ \<Rightarrow> Inr (st1\<lparr>skips := (skips st1)\<lparr>mate := mate (skips st1) + 1\<rparr>\<rparr>, False)))))"

section \<open>The Huber functions\<close>

text \<open>
  Claim C7, in exact arithmetic. For every finite error \<open>e\<close> and every positive \<open>d\<close>, the
  gradient is \<open>e\<close> inside the band \<open>\<bar>e\<bar> \<le> d\<close> and \<open>d\<close> or \<open>- d\<close> outside it, by
  the sign of \<open>e\<close>; the loss is \<open>0.5 * e\<^sup>2\<close> inside and \<open>d * (\<bar>e\<bar> - 0.5 * d)\<close> outside;
  an infinite error has gradient \<open>d\<close> or \<open>- d\<close>. With \<open>d = 100\<close>, the errors 50, 150 and
  \<open>- 150\<close> have gradients 50, 100 and \<open>- 100\<close>.
\<close>

theorem huber_band:
  "0 < d \<Longrightarrow>
     huber_grad exact_ops (Fin e) (Fin d) = Fin (if \<bar>e\<bar> \<le> d then e else if 0 < e then d else - d)
   \<and> huber_loss exact_ops (Fin e) (Fin d) = Fin (if \<bar>e\<bar> \<le> d then 0.5 * e\<^sup>2 else d * (\<bar>e\<bar> - 0.5 * d))
   \<and> huber_grad exact_ops PInf (Fin d) = Fin d
   \<and> huber_grad exact_ops NInf (Fin d) = Fin (- d)
   \<and> huber_grad exact_ops (Fin 50) (Fin 100) = Fin 50
   \<and> huber_grad exact_ops (Fin 150) (Fin 100) = Fin 100
   \<and> huber_grad exact_ops (Fin (- 150)) (Fin 100) = Fin (- 100)"
  by (simp add: huber_grad_def huber_loss_def exact_ops_def x_lt_def x_sub_def power2_eq_square)

theorem huber_band_witness:
  "(0 :: real) < 100
   \<and> huber_grad exact_ops (Fin 250) (Fin 100) = Fin 100
   \<and> huber_loss exact_ops (Fin 250) (Fin 100) = Fin 20000
   \<and> huber_loss exact_ops (Fin 50) (Fin 100) = Fin 1250"
  using huber_band [of 100 250] huber_band [of 100 50] by simp

section \<open>The feature encoder\<close>

lemma is_piece_cases:
  "is_piece c \<longleftrightarrow> c = CHR ''p'' \<or> c = CHR ''n'' \<or> c = CHR ''b'' \<or> c = CHR ''r'' \<or> c = CHR ''q'' \<or> c = CHR ''k''
     \<or> c = CHR ''P'' \<or> c = CHR ''N'' \<or> c = CHR ''B'' \<or> c = CHR ''R'' \<or> c = CHR ''Q'' \<or> c = CHR ''K''"
  by (auto simp: is_piece_def)

lemma piece_not_digit: "is_piece c \<Longrightarrow> \<not> py_isdigit c"
  by (auto simp: is_piece_cases py_isdigit_def char_in_def)

lemma lower_pieces:
  "py_lower CHR ''P'' = CHR ''p''" "py_lower CHR ''N'' = CHR ''n''" "py_lower CHR ''B'' = CHR ''b''"
  "py_lower CHR ''R'' = CHR ''r''" "py_lower CHR ''Q'' = CHR ''q''" "py_lower CHR ''K'' = CHR ''k''"
  "py_lower CHR ''p'' = CHR ''p''" "py_lower CHR ''n'' = CHR ''n''" "py_lower CHR ''b'' = CHR ''b''"
  "py_lower CHR ''r'' = CHR ''r''" "py_lower CHR ''q'' = CHR ''q''" "py_lower CHR ''k'' = CHR ''k''"
  by code_simp+

lemma piece_feature_index:
  "is_piece c \<Longrightarrow> feature_index c f r = Inr (spec_index (c, f, r))"
  unfolding is_piece_cases
  by (elim disjE; simp add: feature_index_def spec_index_def is_white_def spec_piece_type_def
        py_isupper_def lower_pieces char_in_def PIECE_TYPE_INDEX_def)

lemma digit_facts:
  "char_in c 48 57 \<Longrightarrow> py_isdigit c \<and> py_int_char c = Inr ((of_char c :: nat) - 48) \<and> \<not> is_piece c"
  by (auto simp: py_isdigit_def py_int_char_def is_piece_cases char_in_def)

lemma rank_features_spec:
  "\<forall>c \<in> set t. is_piece c \<or> char_in c 48 57 \<Longrightarrow>
   rank_features r f t = Inr (map spec_index (rank_pieces r f t))"
proof (induction t arbitrary: f)
  case Nil
  show ?case by simp
next
  case (Cons c cs)
  from Cons.prems have rest: "\<forall>c \<in> set cs. is_piece c \<or> char_in c 48 57" by simp
  show ?case
  proof (cases "is_piece c")
    case True
    then show ?thesis
      using Cons.IH [OF rest] by (simp add: piece_not_digit piece_feature_index)
  next
    case False
    with Cons.prems have "char_in c 48 57" by simp
    then show ?thesis
      using Cons.IH [OF rest] False by (simp add: digit_facts)
  qed
qed

lemma ranks_features_spec:
  "\<forall>t \<in> set ts. \<forall>c \<in> set t. is_piece c \<or> char_in c 48 57 \<Longrightarrow>
   ranks_features k ts = Inr (map spec_index (board_pieces k ts))"
  by (induction ts arbitrary: k) (simp_all add: rank_features_spec)

lemma length_rank_pieces: "length (rank_pieces r f t) = length (filter is_piece t)"
  by (induction t arbitrary: f) simp_all

lemma length_board_pieces: "length (board_pieces k ts) = length (filter is_piece (concat ts))"
  by (induction ts arbitrary: k) (simp_all add: length_rank_pieces)

lemma rank_pieces_facts:
  "p \<in> set (rank_pieces r f t) \<Longrightarrow> is_piece (fst p) \<and> f \<le> fst (snd p) \<and> snd (snd p) = r"
proof (induction t arbitrary: f)
  case Nil
  then show ?case by simp
next
  case (Cons c cs)
  then show ?case by (fastforce split: if_splits)
qed

lemma distinct_rank_pieces: "distinct (map snd (rank_pieces r f t))"
proof (induction t arbitrary: f)
  case Nil
  show ?case by simp
next
  case (Cons c cs)
  have "(f, r) \<notin> snd ` set (rank_pieces r (f + 1) cs)"
    using rank_pieces_facts [of _ r "f + 1" cs] by fastforce
  with Cons.IH show ?case by simp
qed

lemma board_pieces_facts:
  "p \<in> set (board_pieces k ts) \<Longrightarrow>
   is_piece (fst p) \<and> (\<exists>j. k \<le> j \<and> j < k + length ts \<and> snd (snd p) = 7 - j)"
proof (induction ts arbitrary: k)
  case Nil
  then show ?case by simp
next
  case (Cons t ts)
  from Cons.prems consider "p \<in> set (rank_pieces (7 - k) 0 t)" | "p \<in> set (board_pieces (k + 1) ts)"
    by auto
  then show ?case
  proof cases
    case 1
    then show ?thesis using rank_pieces_facts [OF 1] by auto
  next
    case 2
    from Cons.IH [OF 2] obtain j where "is_piece (fst p)" "k + 1 \<le> j" "j < k + 1 + length ts" "snd (snd p) = 7 - j"
      by blast
    then show ?thesis by (intro conjI exI [of _ j]) simp_all
  qed
qed

lemma distinct_board_pieces:
  "k + length ts \<le> 8 \<Longrightarrow> distinct (map snd (board_pieces k ts))"
proof (induction ts arbitrary: k)
  case Nil
  show ?case by simp
next
  case (Cons t ts)
  have disj: "snd ` set (rank_pieces (7 - k) 0 t) \<inter> snd ` set (board_pieces (k + 1) ts) = {}"
  proof (rule ccontr)
    assume "\<not> ?thesis"
    then obtain x where x1: "x \<in> snd ` set (rank_pieces (7 - k) 0 t)"
      and x2: "x \<in> snd ` set (board_pieces (k + 1) ts)"
      by blast
    from x1 obtain p where p: "p \<in> set (rank_pieces (7 - k) 0 t)" and px: "snd p = x"
      by auto
    from x2 obtain q where q: "q \<in> set (board_pieces (k + 1) ts)" and qx: "snd q = x"
      by auto
    from rank_pieces_facts [OF p] px have "snd x = 7 - k" by simp
    moreover from board_pieces_facts [OF q] qx obtain j
      where "k + 1 \<le> j" "j < k + 1 + length ts" "snd x = 7 - j"
      by auto
    ultimately show False using Cons.prems by simp
  qed
  from Cons.prems have "k + 1 + length ts \<le> 8" by simp
  from Cons.IH [OF this] disj show ?case
    by (simp add: distinct_rank_pieces)
qed

lemma square_less:
  "f \<le> 7 \<Longrightarrow> r \<le> 7 \<Longrightarrow> (if w then r * 8 + f else (7 - r) * 8 + f) < (64::nat)"
  by (cases w) simp_all

lemma spec_index_split:
  assumes "f \<le> 7" "r \<le> 7"
  shows "spec_index (c, f, r) div 64 = (if is_white c then 0 else 6) + spec_piece_type c"
    and "spec_index (c, f, r) mod 64 = (if is_white c then r * 8 + f else (7 - r) * 8 + f)"
proof -
  define plane where "plane = (if is_white c then 0 else 6) + spec_piece_type c"
  define sq where "sq = (if is_white c then r * 8 + f else (7 - r) * 8 + f)"
  have idx: "spec_index (c, f, r) = plane * 64 + sq"
    by (simp add: spec_index_def plane_def sq_def)
  have "sq < 64" unfolding sq_def using assms by (rule square_less)
  then show "spec_index (c, f, r) div 64 = (if is_white c then 0 else 6) + spec_piece_type c"
    and "spec_index (c, f, r) mod 64 = (if is_white c then r * 8 + f else (7 - r) * 8 + f)"
    unfolding idx plane_def [symmetric] sq_def [symmetric] by simp_all
qed

lemma piece_determined:
  "is_piece c \<Longrightarrow> is_piece d \<Longrightarrow> is_white c = is_white d \<Longrightarrow> spec_piece_type c = spec_piece_type d \<Longrightarrow> c = d"
  unfolding is_piece_cases
  by (elim disjE; simp add: is_white_def spec_piece_type_def)

lemma spec_piece_type_less: "spec_piece_type c < 6"
  by (simp add: spec_piece_type_def)

lemma spec_index_less:
  assumes "is_piece c" "f \<le> 7" "r \<le> 7"
  shows "spec_index (c, f, r) < 768"
proof -
  define plane where "plane = (if is_white c then 0 else 6) + spec_piece_type c"
  define sq where "sq = (if is_white c then r * 8 + f else (7 - r) * 8 + f)"
  have "sq < 64" unfolding sq_def using assms(2,3) by (rule square_less)
  moreover have "plane \<le> 11"
    unfolding plane_def using spec_piece_type_less [of c] by simp
  moreover have "spec_index (c, f, r) = plane * 64 + sq"
    by (simp add: spec_index_def plane_def sq_def)
  ultimately show ?thesis by simp
qed

lemma square_inj:
  assumes "f \<le> 7" "g \<le> (7::nat)" "r * 8 + f = s * 8 + g"
  shows "f = g \<and> r = s"
  using assms by arith

lemma spec_index_inj:
  assumes "is_piece c" "f \<le> 7" "r \<le> 7" "is_piece d" "g \<le> 7" "s \<le> 7"
    and eq: "spec_index (c, f, r) = spec_index (d, g, s)"
  shows "c = d \<and> f = g \<and> r = s"
proof -
  have plane: "(if is_white c then 0 else 6) + spec_piece_type c = (if is_white d then 0 else 6) + spec_piece_type d"
    using spec_index_split(1) [OF assms(2,3), of c] spec_index_split(1) [OF assms(5,6), of d] eq by simp
  have w: "is_white c = is_white d"
  proof (rule ccontr)
    assume "is_white c \<noteq> is_white d"
    then consider "is_white c" "\<not> is_white d" | "\<not> is_white c" "is_white d" by blast
    then show False
      using plane spec_piece_type_less [of c] spec_piece_type_less [of d] by cases simp_all
  qed
  with plane have ty: "spec_piece_type c = spec_piece_type d" by simp
  have cd: "c = d" using piece_determined [OF assms(1) assms(4) w ty] .
  have sq: "(if is_white c then r * 8 + f else (7 - r) * 8 + f) = (if is_white d then s * 8 + g else (7 - s) * 8 + g)"
    using spec_index_split(2) [OF assms(2,3), of c] spec_index_split(2) [OF assms(5,6), of d] eq by simp
  have "f = g \<and> r = s"
  proof (cases "is_white d")
    case True
    with sq w have "r * 8 + f = s * 8 + g" by simp
    from square_inj [OF assms(2) assms(5) this] show ?thesis .
  next
    case False
    with sq w have "(7 - r) * 8 + f = (7 - s) * 8 + g" by simp
    from square_inj [OF assms(2) assms(5) this] have "f = g" "7 - r = 7 - s" by simp_all
    with assms(3,6) show ?thesis by simp
  qed
  with cd show ?thesis by simp
qed

lemma board_pieces_distinct_index:
  assumes len: "length ranks = 8" and ok: "board_ok ranks"
  shows "distinct (map spec_index (board_pieces 0 ranks))"
proof -
  have d: "distinct (board_pieces 0 ranks)"
    using distinct_board_pieces [of 0 ranks] len by (simp add: distinct_map)
  have "inj_on spec_index (set (board_pieces 0 ranks))"
  proof (rule inj_onI)
    fix p q
    assume p: "p \<in> set (board_pieces 0 ranks)" and q: "q \<in> set (board_pieces 0 ranks)"
      and eq: "spec_index p = spec_index q"
    obtain c f r where pe: "p = (c, f, r)" by (cases p)
    obtain d g s where qe: "q = (d, g, s)" by (cases q)
    from ok p q pe qe have fg: "f \<le> 7" "g \<le> 7" by (auto simp: board_ok_def)
    from board_pieces_facts [OF p] pe have pc: "is_piece c" "r \<le> 7" by auto
    from board_pieces_facts [OF q] qe have qc: "is_piece d" "s \<le> 7" by auto
    from spec_index_inj [OF pc(1) fg(1) pc(2) qc(1) fg(2) qc(2)] eq pe qe
    show "p = q" by simp
  qed
  with d show ?thesis by (simp add: distinct_map)
qed

lemma board_pieces_index_less:
  assumes ok: "board_ok ranks" and p: "p \<in> set (board_pieces 0 ranks)"
  shows "spec_index p < 768"
proof -
  obtain c f r where pe: "p = (c, f, r)" by (cases p)
  from ok p pe have "f \<le> 7" by (auto simp: board_ok_def)
  moreover from board_pieces_facts [OF p] pe have "is_piece c" "r \<le> 7" by auto
  ultimately show ?thesis unfolding pe by (simp add: spec_index_less)
qed

text \<open>
  Claim C2, as the code has it. When the first field of the position string splits into
  eight ranks that hold only piece letters and ASCII digits, and every piece stands on a
  file from 0 to 7, \<^verbatim>\<open>fen_to_features\<close> returns one index per piece letter, in reading
  order; each index is \<open>(colorOffset + pieceTypeIndex) * 64 + squareIndex\<close> with the
  offsets, piece types and the mirrored rank of black pieces as the specification gives
  them; all indices are below 768; and no index occurs twice.
\<close>

theorem fen_to_features_encoding:
  assumes "split_ws fen = board # others" and "split_sep CHR ''/'' board = ranks"
    and "length ranks = 8" and "board_ok ranks"
  shows "fen_to_features fen = Inr (map spec_index (board_pieces 0 ranks))
       \<and> length (map spec_index (board_pieces 0 ranks)) = length (filter is_piece (concat ranks))
       \<and> (\<forall>i \<in> set (map spec_index (board_pieces 0 ranks)). i < 768)
       \<and> distinct (map spec_index (board_pieces 0 ranks))"
proof -
  from assms(4) have chars: "\<forall>t \<in> set ranks. \<forall>c \<in> set t. is_piece c \<or> char_in c 48 57"
    by (simp add: board_ok_def)
  have "fen_to_features fen = Inr (map spec_index (board_pieces 0 ranks))"
    using assms(1-3) ranks_features_spec [OF chars, of 0] by (simp add: fen_to_features_def)
  moreover have "\<forall>i \<in> set (map spec_index (board_pieces 0 ranks)). i < 768"
    using board_pieces_index_less [OF assms(4)] by auto
  ultimately show ?thesis
    using board_pieces_distinct_index [OF assms(3,4)] by (simp add: length_board_pieces)
qed


theorem fen_to_features_encoding_witness:
  "board_ok [''4k3'', ''8'', ''8'', ''8'', ''8'', ''8'', ''P7'', ''4K3'']
   \<and> fen_to_features ''4k3/8/8/8/8/8/P7/4K3 w - - 0 1'' = Inr [708, 8, 324]
   \<and> distinct [708, 8, 324 :: nat]"
  using fen_to_features_encoding [of "''4k3/8/8/8/8/8/P7/4K3 w - - 0 1''" "''4k3/8/8/8/8/8/P7/4K3''"
      "[''w'', ''-'', ''-'', ''0'', ''1'']" "[''4k3'', ''8'', ''8'', ''8'', ''8'', ''8'', ''P7'', ''4K3'']"]
  by (simp add: py_isspace_def char_in_def board_ok_def is_piece_def spec_index_def is_white_def
      spec_piece_type_def)

text \<open>
  Claim C2 as stated fails: a string of eight ranks whose last rank puts a black king on
  a ninth file is encoded without complaint, with the index 768.
\<close>

theorem fen_to_features_out_of_range:
  "length (split_sep CHR ''/'' ''8/8/8/8/8/8/8/8k'') = 8
   \<and> fen_to_features ''8/8/8/8/8/8/8/8k'' = Inr [768]
   \<and> \<not> (768 :: nat) < 768"
  by code_simp

section \<open>The training step\<close>

lemma update_w2_frame:
  "update_w2 F c hidden idxs ws = (ws', r) \<Longrightarrow>
   length ws' = length ws \<and>
   (\<forall>i. \<not> (i \<in> set idxs \<and> \<not> feq F (hidden ! i) (flit F 0)) \<longrightarrow> ws' ! i = ws ! i)"
proof (induction idxs arbitrary: ws)
  case Nil
  then show ?case by simp
next
  case (Cons j rest)
  show ?case
  proof (cases "j < length hidden \<and> \<not> feq F (hidden ! j) (flit F 0) \<and> j < length ws")
    case True
    with Cons.prems
    have "update_w2 F c hidden rest (ws[j := fsub F (ws ! j) (fmul F c (hidden ! j))]) = (ws', r)"
      by simp
    from Cons.IH [OF this] True show ?thesis
      by (auto simp: nth_list_update)
  next
    case False
    then consider "\<not> j < length hidden" | "j < length hidden" "feq F (hidden ! j) (flit F 0)"
      | "j < length hidden" "\<not> feq F (hidden ! j) (flit F 0)" "\<not> j < length ws"
      by blast
    then show ?thesis
    proof cases
      case 1
      with Cons.prems show ?thesis by simp
    next
      case 2
      with Cons.prems have "update_w2 F c hidden rest ws = (ws', r)" by simp
      from Cons.IH [OF this] 2 show ?thesis by auto
    next
      case 3
      with Cons.prems show ?thesis by simp
    qed
  qed
qed

lemma update_column_frame:
  "update_column F d i feats rows = (rows', r) \<Longrightarrow>
   length rows' = length rows \<and>
   (\<forall>k. length (rows' ! k) = length (rows ! k)) \<and>
   (\<forall>k. k \<notin> set feats \<longrightarrow> rows' ! k = rows ! k) \<and>
   (\<forall>k j. j \<noteq> i \<longrightarrow> rows' ! k ! j = rows ! k ! j)"
proof (induction feats arbitrary: rows)
  case Nil
  then show ?case by simp
next
  case (Cons idx rest)
  show ?case
  proof (cases "idx < length rows \<and> i < length (rows ! idx)")
    case True
    define rows1 where "rows1 = rows[idx := (rows ! idx)[i := fsub F (rows ! idx ! i) d]]"
    from Cons.prems True have "update_column F d i rest rows1 = (rows', r)"
      by (simp add: rows1_def)
    from Cons.IH [OF this]
    have ih: "length rows' = length rows1" "\<And>k. length (rows' ! k) = length (rows1 ! k)"
      "\<And>k. k \<notin> set rest \<Longrightarrow> rows' ! k = rows1 ! k"
      "\<And>k j. j \<noteq> i \<Longrightarrow> rows' ! k ! j = rows1 ! k ! j"
      by auto
    have r1: "length rows1 = length rows" "\<And>k. length (rows1 ! k) = length (rows ! k)"
      "\<And>k. k \<noteq> idx \<Longrightarrow> rows1 ! k = rows ! k"
      "\<And>k j. j \<noteq> i \<Longrightarrow> rows1 ! k ! j = rows ! k ! j"
      using True by (auto simp: rows1_def nth_list_update)
    show ?thesis
      using ih r1 by auto
  next
    case False
    with Cons.prems show ?thesis by auto
  qed
qed

lemma update_hidden_frame:
  "update_hidden F rate grad snap active feats idxs (rows, bs) = ((rows', bs'), r) \<Longrightarrow>
   length rows' = length rows \<and> length bs' = length bs \<and>
   (\<forall>k. length (rows' ! k) = length (rows ! k)) \<and>
   (\<forall>k. k \<notin> set feats \<longrightarrow> rows' ! k = rows ! k) \<and>
   (\<forall>k j. \<not> (j \<in> set idxs \<and> active ! j) \<longrightarrow> rows' ! k ! j = rows ! k ! j) \<and>
   (\<forall>j. \<not> (j \<in> set idxs \<and> active ! j) \<longrightarrow> bs' ! j = bs ! j)"
proof (induction idxs arbitrary: rows bs)
  case Nil
  then show ?case by simp
next
  case (Cons i rest)
  let ?g = "fmul F grad (snap ! i)"
  show ?case
  proof (cases "i < length active \<and> active ! i \<and> i < length snap \<and> \<not> feq F ?g (flit F 0) \<and> i < length bs")
    case True
    define bs1 where "bs1 = bs[i := fsub F (bs ! i) (fmul F rate ?g)]"
    obtain rows1 r1 where col: "update_column F (fmul F rate ?g) i feats rows = (rows1, r1)"
      by (cases "update_column F (fmul F rate ?g) i feats rows")
    note cf = update_column_frame [OF col]
    have b1f: "length bs1 = length bs" "\<And>j. j \<noteq> i \<Longrightarrow> bs1 ! j = bs ! j"
      by (simp_all add: bs1_def)
    have ne: "\<And>j. \<not> (j \<in> set (i # rest) \<and> active ! j) \<Longrightarrow> j \<noteq> i \<and> \<not> (j \<in> set rest \<and> active ! j)"
      using True by auto
    show ?thesis
    proof (cases r1)
      case None
      with Cons.prems True col
      have "update_hidden F rate grad snap active feats rest (rows1, bs1) = ((rows', bs'), r)"
        by (simp add: bs1_def Let_def)
      from Cons.IH [OF this]
      have ih: "length rows' = length rows1" "length bs' = length bs1"
        "\<And>k. length (rows' ! k) = length (rows1 ! k)"
        "\<And>k. k \<notin> set feats \<Longrightarrow> rows' ! k = rows1 ! k"
        "\<And>k j. \<not> (j \<in> set rest \<and> active ! j) \<Longrightarrow> rows' ! k ! j = rows1 ! k ! j"
        "\<And>j. \<not> (j \<in> set rest \<and> active ! j) \<Longrightarrow> bs' ! j = bs1 ! j"
        by auto
      show ?thesis
      proof (intro conjI allI impI)
        show "length rows' = length rows" using ih(1) cf by simp
        show "length bs' = length bs" using ih(2) b1f(1) by simp
        show "length (rows' ! k) = length (rows ! k)" for k using ih(3) cf by simp
        show "rows' ! k = rows ! k" if "k \<notin> set feats" for k using ih(4) [OF that] cf that by simp
        show "rows' ! k ! j = rows ! k ! j" if "\<not> (j \<in> set (i # rest) \<and> active ! j)" for k j
          using ne [OF that] ih(5) [of j k] cf by simp
        show "bs' ! j = bs ! j" if "\<not> (j \<in> set (i # rest) \<and> active ! j)" for j
          using ne [OF that] ih(6) [of j] b1f(2) [of j] by simp
      qed
    next
      case (Some e)
      with Cons.prems True col have eqs: "rows' = rows1" "bs' = bs1"
        by (simp_all add: bs1_def Let_def)
      show ?thesis
      proof (intro conjI allI impI)
        show "length rows' = length rows" using eqs cf by simp
        show "length bs' = length bs" using eqs b1f(1) by simp
        show "length (rows' ! k) = length (rows ! k)" for k using eqs cf by simp
        show "rows' ! k = rows ! k" if "k \<notin> set feats" for k using eqs cf that by simp
        show "rows' ! k ! j = rows ! k ! j" if "\<not> (j \<in> set (i # rest) \<and> active ! j)" for k j
          using ne [OF that] eqs cf by simp
        show "bs' ! j = bs ! j" if "\<not> (j \<in> set (i # rest) \<and> active ! j)" for j
          using ne [OF that] eqs b1f(2) [of j] by simp
      qed
    qed
  next
    case False
    then consider "\<not> i < length active" | "i < length active" "\<not> active ! i"
      | "i < length active" "active ! i" "\<not> i < length snap"
      | "i < length active" "active ! i" "i < length snap" "feq F ?g (flit F 0)"
      | "i < length active" "active ! i" "i < length snap" "\<not> feq F ?g (flit F 0)" "\<not> i < length bs"
      by blast
    then show ?thesis
    proof cases
      case 1
      with Cons.prems show ?thesis by simp
    next
      case 2
      with Cons.prems have "update_hidden F rate grad snap active feats rest (rows, bs) = ((rows', bs'), r)"
        by simp
      from Cons.IH [OF this] show ?thesis by auto
    next
      case 3
      with Cons.prems show ?thesis by simp
    next
      case 4
      with Cons.prems have "update_hidden F rate grad snap active feats rest (rows, bs) = ((rows', bs'), r)"
        by (simp add: Let_def)
      from Cons.IH [OF this] show ?thesis by auto
    next
      case 5
      with Cons.prems show ?thesis by (simp add: Let_def)
    qed
  qed
qed

lemma activate_spec:
  "distinct idxs \<Longrightarrow> activate F idxs (hid, act) = Inr (hid', act') \<Longrightarrow>
   length hid' = length hid \<and> length act' = length act \<and>
   (\<forall>i. i \<notin> set idxs \<longrightarrow> hid' ! i = hid ! i \<and> act' ! i = act ! i) \<and>
   (\<forall>i \<in> set idxs. i < length hid \<and>
      hid' ! i = (if fle F (hid ! i) (flit F 0) then flit F 0
                  else if fle F (RELU_CAP F) (hid ! i) then RELU_CAP F else hid ! i) \<and>
      act' ! i = (if fle F (hid ! i) (flit F 0) \<or> fle F (RELU_CAP F) (hid ! i) then act ! i else True))"
proof (induction idxs arbitrary: hid act)
  case Nil
  then show ?case by simp
next
  case (Cons j rest)
  from Cons.prems have d: "distinct rest" and jr: "j \<notin> set rest" by simp_all
  from Cons.prems(2) have jl: "j < length hid" by (simp split: if_splits)
  consider (zero) "fle F (hid ! j) (flit F 0)"
    | (cap) "\<not> fle F (hid ! j) (flit F 0)" "fle F (RELU_CAP F) (hid ! j)"
    | (act) "\<not> fle F (hid ! j) (flit F 0)" "\<not> fle F (RELU_CAP F) (hid ! j)"
    by blast
  then show ?case
  proof cases
    case zero
    with Cons.prems(2) jl have "activate F rest (hid[j := flit F 0], act) = Inr (hid', act')"
      by simp
    from Cons.IH [OF d this] jr jl zero show ?thesis
      by (auto simp: nth_list_update)
  next
    case cap
    with Cons.prems(2) jl have "activate F rest (hid[j := RELU_CAP F], act) = Inr (hid', act')"
      by simp
    from Cons.IH [OF d this] jr jl cap show ?thesis
      by (auto simp: nth_list_update)
  next
    case act
    with Cons.prems(2) jl have ja: "j < length act"
      and "activate F rest (hid, act[j := True]) = Inr (hid', act')"
      by (simp_all add: Let_def split: if_splits)
    from Cons.IH [OF d this(2)] jr jl ja act show ?thesis
      by (auto simp: nth_list_update)
  qed
qed

lemma forward_flags:
  assumes "forward F m feats = Inr (out, hidden, active)"
  shows "\<exists>pre. add_rows F (w1 m) (hidden_size m) feats (b1 m) = Inr pre \<and>
     (\<forall>i < hidden_size m.
        active ! i = (\<not> fle F (pre ! i) (flit F 0) \<and> \<not> fle F (RELU_CAP F) (pre ! i)) \<and>
        hidden ! i = (if fle F (pre ! i) (flit F 0) then flit F 0
                      else if fle F (RELU_CAP F) (pre ! i) then RELU_CAP F else pre ! i))"
proof -
  from assms obtain pre where pre: "add_rows F (w1 m) (hidden_size m) feats (b1 m) = Inr pre"
    and act: "activate F [0..<hidden_size m] (pre, replicate (hidden_size m) False) = Inr (hidden, active)"
    by (auto simp: forward_def split: sum.splits prod.splits)
  have "distinct [0..<hidden_size m]" by simp
  from activate_spec [OF this act] pre show ?thesis
    by auto
qed

text \<open>
  Claim C4. Whatever \<^verbatim>\<open>train_sample\<close> returns or raises, it keeps the shapes, and leaves
  untouched: every row of \<open>w1\<close> whose index is not in the feature list; every entry of
  \<open>w2\<close> at a hidden unit whose activation equals 0.0; every entry of \<open>b1\<close>, and every
  column of \<open>w1\<close>, at a hidden unit that is not active. A unit is active exactly when
  its sum before clamping is neither at most 0 nor at least the cap, and its activation
  is that sum clamped. An exception of the forward pass leaves the whole model untouched.
\<close>

theorem train_sample_frame:
  assumes run: "train_sample F m feats lbl rate delta = (m', res)"
  shows "input_size m' = input_size m \<and> hidden_size m' = hidden_size m
       \<and> length (w1 m') = length (w1 m) \<and> length (b1 m') = length (b1 m)
       \<and> length (w2 m') = length (w2 m)
       \<and> (\<forall>k. k \<notin> set feats \<longrightarrow> w1 m' ! k = w1 m ! k)
       \<and> (case forward F m feats of
            Inl e \<Rightarrow> m' = m \<and> res = Inl e
          | Inr (out, hidden, active) \<Rightarrow>
              (\<forall>i. \<not> (i < hidden_size m \<and> \<not> feq F (hidden ! i) (flit F 0)) \<longrightarrow> w2 m' ! i = w2 m ! i)
            \<and> (\<forall>i. \<not> (i < hidden_size m \<and> active ! i) \<longrightarrow> b1 m' ! i = b1 m ! i)
            \<and> (\<forall>k i. \<not> (i < hidden_size m \<and> active ! i) \<longrightarrow> w1 m' ! k ! i = w1 m ! k ! i)
            \<and> (\<exists>pre. add_rows F (w1 m) (hidden_size m) feats (b1 m) = Inr pre \<and>
                 (\<forall>i < hidden_size m.
                    active ! i = (\<not> fle F (pre ! i) (flit F 0) \<and> \<not> fle F (RELU_CAP F) (pre ! i)) \<and>
                    hidden ! i = (if fle F (pre ! i) (flit F 0) then flit F 0
                                  else if fle F (RELU_CAP F) (pre ! i) then RELU_CAP F else pre ! i))))"
proof (cases "forward F m feats")
  case (Inl e)
  with run show ?thesis by (simp add: train_sample_def)
next
  case (Inr fwd)
  obtain out hidden active where fwd: "fwd = (out, hidden, active)" by (cases fwd)
  from Inr fwd have "forward F m feats = Inr (out, hidden, active)" by simp
  note flags = forward_flags [OF this]
  define grad where "grad = huber_grad F (fsub F out lbl) delta"
  obtain ws r2 where u2: "update_w2 F (fmul F rate grad) hidden [0..<hidden_size m] (w2 m) = (ws, r2)"
    by (cases "update_w2 F (fmul F rate grad) hidden [0..<hidden_size m] (w2 m)")
  note f2 = update_w2_frame [OF u2]
  show ?thesis
  proof (cases r2)
    case (Some e)
    with run Inr fwd u2 have "m' = m\<lparr>w2 := ws\<rparr>"
      by (simp add: train_sample_def grad_def Let_def)
    with f2 flags Inr fwd show ?thesis by simp
  next
    case None
    obtain rows bs r3 where uh: "update_hidden F rate grad (w2 m) active feats [0..<hidden_size m] (w1 m, b1 m) = ((rows, bs), r3)"
      by (cases "update_hidden F rate grad (w2 m) active feats [0..<hidden_size m] (w1 m, b1 m)") auto
    note fh = update_hidden_frame [OF uh]
    have "m' = m\<lparr>w2 := ws, b2 := fsub F (b2 m) (fmul F rate grad), w1 := rows, b1 := bs\<rparr>"
      using run Inr fwd u2 None uh
      by (cases r3) (simp_all add: train_sample_def grad_def Let_def)
    with f2 fh flags Inr fwd show ?thesis by simp
  qed
qed

theorem train_sample_frame_witness:
  "forward exact_ops
     \<lparr>input_size = 2, hidden_size = 2, w1 = [[Fin 1, Fin (- 1)], [Fin 2, Fin (1 / 2)]],
      b1 = [Fin 0, Fin 0], w2 = [Fin 1, Fin 1], b2 = Fin 0\<rparr> [0]
     = Inr (Fin 1, [Fin 1, Fin 0], [True, False])
   \<and> train_sample exact_ops
     \<lparr>input_size = 2, hidden_size = 2, w1 = [[Fin 1, Fin (- 1)], [Fin 2, Fin (1 / 2)]],
      b1 = [Fin 0, Fin 0], w2 = [Fin 1, Fin 1], b2 = Fin 0\<rparr> [0] (Fin 0) (Fin (1 / 2)) (Fin 100)
     = (\<lparr>input_size = 2, hidden_size = 2, w1 = [[Fin (1 / 2), Fin (- 1)], [Fin 2, Fin (1 / 2)]],
         b1 = [Fin (- (1 / 2)), Fin 0], w2 = [Fin (1 / 2), Fin 1], b2 = Fin (- (1 / 2))\<rparr>,
        Inr (Fin (1 / 2)))
   \<and> (1 :: nat) \<notin> set [0]"
proof -
  let ?m = "\<lparr>input_size = 2, hidden_size = 2, w1 = [[Fin 1, Fin (- 1)], [Fin 2, Fin (1 / 2)]],
      b1 = [Fin 0, Fin 0], w2 = [Fin 1, Fin 1], b2 = Fin 0\<rparr>"
  have fwd: "forward exact_ops ?m [0] = Inr (Fin 1, [Fin 1, Fin 0], [True, False])"
    by (simp add: forward_def exact_ops_def RELU_CAP_def numeral_2_eq_2)
  have run: "train_sample exact_ops ?m [0] (Fin 0) (Fin (1 / 2)) (Fin 100)
     = (\<lparr>input_size = 2, hidden_size = 2, w1 = [[Fin (1 / 2), Fin (- 1)], [Fin 2, Fin (1 / 2)]],
         b1 = [Fin (- (1 / 2)), Fin 0], w2 = [Fin (1 / 2), Fin 1], b2 = Fin (- (1 / 2))\<rparr>,
        Inr (Fin (1 / 2)))"
    by (simp add: train_sample_def forward_def huber_grad_def huber_loss_def exact_ops_def
        RELU_CAP_def numeral_2_eq_2 x_sub_def x_lt_def Let_def)
  from train_sample_frame [OF run] fwd run show ?thesis by simp
qed

section \<open>The epoch loop\<close>

lemma epoch_body_step:
  assumes "epoch_body F args train_ep eval_val st e = Inr (st', brk)"
  shows "\<exists>m' tl v. train_ep (model st) = Inr (m', tl) \<and> eval_val m' = Inr v
       \<and> model st' = m' \<and> history st' = history st @ [(e + 1, tl, v)]
       \<and> (flt F v (best_val st) \<longrightarrow>
             best_val st' = v \<and> best_epoch st' = e + 1
           \<and> best_snapshot st' = Some (take_snapshot m')
           \<and> patience_left st' = patience args \<and> \<not> brk)
       \<and> (\<not> flt F v (best_val st) \<longrightarrow>
             best_val st' = best_val st \<and> best_epoch st' = best_epoch st
           \<and> best_snapshot st' = best_snapshot st
           \<and> (int e + 1 < minEpochs args \<longrightarrow> patience_left st' = patience_left st \<and> \<not> brk)
           \<and> (minEpochs args \<le> int e + 1 \<longrightarrow>
                 patience_left st' = patience_left st - 1 \<and> brk = (patience_left st' \<le> 0)))"
proof -
  from assms obtain m' tl where te: "train_ep (model st) = Inr (m', tl)"
    by (cases "train_ep (model st)") (auto simp: epoch_body_def)
  from assms te obtain v where ev: "eval_val m' = Inr v"
    by (cases "eval_val m'") (auto simp: epoch_body_def)
  have "train_ep (model st) = Inr (m', tl) \<and> eval_val m' = Inr v
       \<and> model st' = m' \<and> history st' = history st @ [(e + 1, tl, v)]
       \<and> (flt F v (best_val st) \<longrightarrow>
             best_val st' = v \<and> best_epoch st' = e + 1
           \<and> best_snapshot st' = Some (take_snapshot m')
           \<and> patience_left st' = patience args \<and> \<not> brk)
       \<and> (\<not> flt F v (best_val st) \<longrightarrow>
             best_val st' = best_val st \<and> best_epoch st' = best_epoch st
           \<and> best_snapshot st' = best_snapshot st
           \<and> (int e + 1 < minEpochs args \<longrightarrow> patience_left st' = patience_left st \<and> \<not> brk)
           \<and> (minEpochs args \<le> int e + 1 \<longrightarrow>
                 patience_left st' = patience_left st - 1 \<and> brk = (patience_left st' \<le> 0)))"
    using assms te ev
    by (cases "flt F v (best_val st)"; cases "minEpochs args \<le> int e + 1")
      (auto simp: epoch_body_def Let_def)
  then show ?thesis by - (rule exI, rule exI, rule exI)
qed

lemma val_losses_snoc:
  "history st' = history st @ [(e, tl, v)] \<Longrightarrow> val_losses st' = val_losses st @ [v]"
  by (simp add: val_losses_def)

lemma length_val_losses: "length (val_losses st) = length (history st)"
  by (simp add: val_losses_def)

lemma run_epochs_history:
  "run_epochs F args train_ep eval_val es st = Inr res \<Longrightarrow>
   set (val_losses st) \<subseteq> set (val_losses res)"
proof (induction es arbitrary: st)
  case Nil
  then show ?case by simp
next
  case (Cons e es)
  from Cons.prems obtain st' brk where body: "epoch_body F args train_ep eval_val st e = Inr (st', brk)"
    and rest: "(if brk then Inr st' else run_epochs F args train_ep eval_val es st') = Inr res"
    by (cases "epoch_body F args train_ep eval_val st e") auto
  from epoch_body_step [OF body] obtain tl v where "history st' = history st @ [(e + 1, tl, v)]"
    by blast
  then have sub: "set (val_losses st) \<subseteq> set (val_losses st')"
    by (auto simp: val_losses_def)
  show ?case
  proof (cases brk)
    case True
    with rest sub show ?thesis by simp
  next
    case False
    with rest have "run_epochs F args train_ep eval_val es st' = Inr res" by simp
    from Cons.IH [OF this] sub show ?thesis by blast
  qed
qed

lemma loop_inv_best_val_in:
  assumes inv: "loop_inv F train_ep m0 k st" and inV: "finf F \<in> V" and sub: "set (val_losses st) \<subseteq> V"
  shows "best_val st \<in> V"
proof (cases "best_epoch st = 0")
  case True
  with inv inV show ?thesis by (simp add: loop_inv_def)
next
  case False
  with inv have b: "best_epoch st \<le> k" "best_val st = val_losses st ! (best_epoch st - 1)"
    and l: "length (history st) = k"
    by (simp_all add: loop_inv_def)
  from False b(1) l have "best_epoch st - 1 < length (val_losses st)"
    by (simp add: length_val_losses)
  then have "val_losses st ! (best_epoch st - 1) \<in> set (val_losses st)"
    by (rule nth_mem)
  with b(2) sub show ?thesis by auto
qed

lemma loop_inv_no_better:
  assumes inv: "loop_inv F train_ep m0 k st" and u: "u \<in> set (val_losses st)"
  shows "\<not> flt F u (best_val st)"
  using inv u by (cases "best_epoch st = 0") (auto simp: loop_inv_def)

lemma loop_inv_step:
  assumes inv: "loop_inv F train_ep m0 k st"
    and body: "epoch_body F args train_ep eval_val st k = Inr (st', brk)"
    and ord: "ordered_on F V" and inV: "finf F \<in> V" and sub: "set (val_losses st') \<subseteq> V"
  shows "loop_inv F train_ep m0 (Suc k) st'"
proof -
  from epoch_body_step [OF body] obtain m' tl v where
    te: "train_ep (model st) = Inr (m', tl)" and m': "model st' = m'"
    and h: "history st' = history st @ [(k + 1, tl, v)]"
    and imp: "flt F v (best_val st) \<Longrightarrow>
        best_val st' = v \<and> best_epoch st' = k + 1 \<and> best_snapshot st' = Some (take_snapshot m')"
    and nimp: "\<not> flt F v (best_val st) \<Longrightarrow>
        best_val st' = best_val st \<and> best_epoch st' = best_epoch st \<and> best_snapshot st' = best_snapshot st"
    by blast
  have vl: "val_losses st' = val_losses st @ [v]" using h by (simp add: val_losses_def)
  from inv have ma: "model_after train_ep m0 k = Some (model st)" and lh: "length (history st) = k"
    and bk: "best_epoch st \<le> k"
    by (simp_all add: loop_inv_def)
  have lv: "length (val_losses st) = k" using lh by (simp add: length_val_losses)
  have ma': "model_after train_ep m0 (Suc k) = Some (model st')"
    using ma te m' by simp
  have lh': "length (history st') = Suc k" using h lh by simp
  from sub vl have vV: "v \<in> V" and oldV: "set (val_losses st) \<subseteq> V" by auto
  have bV: "best_val st \<in> V" using inv inV oldV by (rule loop_inv_best_val_in)
  from ord have irr: "\<And>a. a \<in> V \<Longrightarrow> \<not> flt F a a"
    and tr: "\<And>a b c. a \<in> V \<Longrightarrow> b \<in> V \<Longrightarrow> c \<in> V \<Longrightarrow> flt F a b \<Longrightarrow> flt F b c \<Longrightarrow> flt F a c"
    and nt: "\<And>a b c. a \<in> V \<Longrightarrow> b \<in> V \<Longrightarrow> c \<in> V \<Longrightarrow> flt F a b \<Longrightarrow> flt F a c \<or> flt F c b"
    unfolding ordered_on_def by blast+
  show ?thesis
  proof (cases "flt F v (best_val st)")
    case True
    from imp [OF True] have bv: "best_val st' = v" and be: "best_epoch st' = k + 1"
      and bs: "best_snapshot st' = Some (take_snapshot m')"
      by simp_all
    have nb: "\<forall>u \<in> set (val_losses st'). \<not> flt F u v"
    proof
      fix u assume "u \<in> set (val_losses st')"
      then consider "u = v" | "u \<in> set (val_losses st)" using vl by auto
      then show "\<not> flt F u v"
      proof cases
        case 1
        with irr [OF vV] show ?thesis by simp
      next
        case 2
        with oldV have uV: "u \<in> V" by auto
        from loop_inv_no_better [OF inv 2] have "\<not> flt F u (best_val st)" .
        with tr [OF uV vV bV _ True] show ?thesis by blast
      qed
    qed
    have earlier: "\<forall>j < k. flt F v (val_losses st' ! j)"
    proof (intro allI impI)
      fix j assume j: "j < k"
      then have mem: "val_losses st ! j \<in> set (val_losses st)" using lv by simp
      with oldV have uV: "val_losses st ! j \<in> V" by auto
      from loop_inv_no_better [OF inv mem] have "\<not> flt F (val_losses st ! j) (best_val st)" .
      with nt [OF vV bV uV True] have "flt F v (val_losses st ! j)" by blast
      then show "flt F v (val_losses st' ! j)" using vl j lv by (simp add: nth_append)
    qed
    have at: "val_losses st' ! k = v" unfolding vl lv [symmetric] by (rule nth_append_length)
    show ?thesis
      unfolding loop_inv_def using ma' lh' bv be bs nb earlier at m' by auto
  next
    case False
    from nimp [OF False] have bv: "best_val st' = best_val st" and be: "best_epoch st' = best_epoch st"
      and bs: "best_snapshot st' = best_snapshot st"
      by simp_all
    have nb: "\<forall>u \<in> set (val_losses st'). \<not> flt F u (best_val st)"
      using vl False loop_inv_no_better [OF inv] by auto
    show ?thesis
    proof (cases "best_epoch st = 0")
      case True
      with inv have "best_snapshot st = None" "best_val st = finf F"
        by (simp_all add: loop_inv_def)
      with True nb show ?thesis
        unfolding loop_inv_def using ma' lh' bv be bs by simp
    next
      case pos: False
      with inv obtain mb where mb: "model_after train_ep m0 (best_epoch st) = Some mb"
        "best_snapshot st = Some (take_snapshot mb)"
        and at: "best_val st = val_losses st ! (best_epoch st - 1)"
        and earlier: "\<forall>j < best_epoch st - 1. flt F (best_val st) (val_losses st ! j)"
        by (auto simp: loop_inv_def)
      have lt: "best_epoch st - 1 < length (val_losses st)"
        using bk pos lv by simp
      have at': "best_val st = val_losses st' ! (best_epoch st - 1)"
        using at lt by (simp add: vl nth_append)
      have earlier': "\<forall>j < best_epoch st - 1. flt F (best_val st) (val_losses st' ! j)"
      proof (intro allI impI)
        fix j assume j: "j < best_epoch st - 1"
        with lt have "j < length (val_losses st)" by simp
        then have "val_losses st' ! j = val_losses st ! j" by (simp add: vl nth_append)
        with earlier j show "flt F (best_val st) (val_losses st' ! j)" by simp
      qed
      show ?thesis
        unfolding loop_inv_def using ma' lh' bv be bs nb pos mb at' earlier' bk by auto
    qed
  qed
qed

lemma run_epochs_inv:
  assumes "run_epochs F args train_ep eval_val [k..<n] st = Inr res"
    and "loop_inv F train_ep m0 k st"
    and "1 \<le> patience args \<longrightarrow> 1 \<le> patience_left st"
    and "k \<le> n"
    and ord: "ordered_on F V" and inV: "finf F \<in> V" and sub: "set (val_losses res) \<subseteq> V"
  shows "loop_inv F train_ep m0 (length (history res)) res \<and> length (history res) \<le> n
       \<and> (length (history res) < n \<longrightarrow>
             patience_left res \<le> 0 \<and> minEpochs args \<le> int (length (history res))
           \<and> best_epoch res < length (history res)
           \<and> (1 \<le> patience args \<longrightarrow> patience_left res = 0))"
  using assms(1-4)
proof (induction "n - k" arbitrary: k st)
  case 0
  then have "[k..<n] = []" by simp
  with "0.prems" have res: "res = st" by simp
  from "0.prems"(2) have "length (history st) = k" by (simp add: loop_inv_def)
  moreover from "0.hyps" "0.prems"(4) have "n = k" by simp
  ultimately show ?case using "0.prems"(2) res by simp
next
  case (Suc d)
  then have kn: "k < n" by simp
  then have up: "[k..<n] = k # [Suc k..<n]" by (rule upt_conv_Cons)
  from Suc.prems(1) obtain st' brk where body: "epoch_body F args train_ep eval_val st k = Inr (st', brk)"
    and rest: "(if brk then Inr st' else run_epochs F args train_ep eval_val [Suc k..<n] st') = Inr res"
    unfolding up by (cases "epoch_body F args train_ep eval_val st k") auto
  from epoch_body_step [OF body] obtain m' tl v where
    "train_ep (model st) = Inr (m', tl)"
    and h: "history st' = history st @ [(k + 1, tl, v)]"
    and imp: "flt F v (best_val st) \<Longrightarrow> patience_left st' = patience args \<and> \<not> brk"
    and nimp: "\<not> flt F v (best_val st) \<Longrightarrow>
        best_epoch st' = best_epoch st
      \<and> (int k + 1 < minEpochs args \<longrightarrow> patience_left st' = patience_left st \<and> \<not> brk)
      \<and> (minEpochs args \<le> int k + 1 \<longrightarrow>
            patience_left st' = patience_left st - 1 \<and> brk = (patience_left st' \<le> 0))"
    by blast
  from Suc.prems(2) have lh: "length (history st) = k" and bk: "best_epoch st \<le> k"
    by (simp_all add: loop_inv_def)
  have lh': "length (history st') = Suc k" using h lh by simp
  show ?case
  proof (cases brk)
    case True
    with rest have res: "res = st'" by simp
    from sub res have "set (val_losses st') \<subseteq> V" by simp
    from loop_inv_step [OF Suc.prems(2) body ord inV this]
    have inv': "loop_inv F train_ep m0 (Suc k) st'" .
    from True imp have ni: "\<not> flt F v (best_val st)" by blast
    from nimp [OF ni] True have me: "minEpochs args \<le> int k + 1"
      and pl: "patience_left st' = patience_left st - 1" "patience_left st' \<le> 0"
      and be: "best_epoch st' = best_epoch st"
      by auto
    have "1 \<le> patience args \<longrightarrow> patience_left st' = 0"
      using Suc.prems(3) pl by auto
    with inv' lh' kn me pl be bk show ?thesis
      unfolding res by simp
  next
    case False
    with rest have run': "run_epochs F args train_ep eval_val [Suc k..<n] st' = Inr res" by simp
    from run_epochs_history [OF run'] sub have "set (val_losses st') \<subseteq> V" by blast
    from loop_inv_step [OF Suc.prems(2) body ord inV this]
    have inv': "loop_inv F train_ep m0 (Suc k) st'" .
    have pat: "1 \<le> patience args \<longrightarrow> 1 \<le> patience_left st'"
    proof (cases "flt F v (best_val st)")
      case True
      from imp [OF True] show ?thesis by simp
    next
      case ni: False
      from nimp [OF ni] False Suc.prems(3) show ?thesis
        by (cases "minEpochs args \<le> int k + 1") auto
    qed
    from Suc.hyps(2) have d: "d = n - Suc k" by simp
    from kn have "Suc k \<le> n" by simp
    from Suc.hyps(1) [OF d run' inv' pat this] show ?thesis .
  qed
qed

lemma restore_best_fields:
  "history (restore_best st) = history st" "val_losses (restore_best st) = val_losses st"
  "best_val (restore_best st) = best_val st" "best_epoch (restore_best st) = best_epoch st"
  "patience_left (restore_best st) = patience_left st"
  "best_snapshot st = None \<Longrightarrow> model (restore_best st) = model st"
  "best_snapshot st = Some snap \<Longrightarrow> take_snapshot (model (restore_best st)) = snap"
  by (auto simp: restore_best_def val_losses_def take_snapshot_def split: option.splits prod.splits)

lemma loop_inv_initial: "loop_inv F train_ep m0 0 (initial_state F args m0)"
  by (simp add: loop_inv_def initial_state_def val_losses_def)

lemma run_epochs_trace:
  assumes "run_epochs F args train_ep eval_val [k..<n] st = Inr res"
    and "state_after F args train_ep eval_val m0 k = Some (st, b0)"
    and "length (history st) = k"
    and "1 \<le> patience args \<longrightarrow> 1 \<le> patience_left st"
    and "k \<le> n"
    and "best_epoch st \<le> k"
  shows "k \<le> length (history res) \<and> length (history res) \<le> n
       \<and> (k < length (history res) \<and> length (history res) < n \<longrightarrow>
             patience_left res \<le> 0 \<and> minEpochs args \<le> int (length (history res))
           \<and> best_epoch res < length (history res)
           \<and> (1 \<le> patience args \<longrightarrow> patience_left res = 0))
       \<and> (\<exists>b. state_after F args train_ep eval_val m0 (length (history res)) = Some (res, b)
              \<and> (k < length (history res) \<and> length (history res) < n \<longrightarrow> b))
       \<and> (length (history res) = k \<longrightarrow> k = n)
       \<and> (\<forall>j. k < j \<and> j < length (history res) \<longrightarrow>
              (\<exists>s. state_after F args train_ep eval_val m0 j = Some (s, False)))
       \<and> (1 \<le> patience args \<longrightarrow>
              (\<forall>j. k < j \<and> j \<le> length (history res) \<longrightarrow>
                 (\<exists>s b. state_after F args train_ep eval_val m0 j = Some (s, b)
                        \<and> b = (patience_left s = 0))))"
  using assms
proof (induction "n - k" arbitrary: k st b0)
  case 0
  then have "[k..<n] = []" and kn: "k = n" by simp_all
  with "0.prems" have res: "res = st" by simp
  show ?case
    unfolding res using "0.prems"(2,3) kn by auto
next
  case (Suc d)
  then have kn: "k < n" by simp
  then have up: "[k..<n] = k # [Suc k..<n]" by (rule upt_conv_Cons)
  from Suc.prems(1) obtain st' brk where body: "epoch_body F args train_ep eval_val st k = Inr (st', brk)"
    and rest: "(if brk then Inr st' else run_epochs F args train_ep eval_val [Suc k..<n] st') = Inr res"
    unfolding up by (cases "epoch_body F args train_ep eval_val st k") auto
  from epoch_body_step [OF body] obtain m' tl v where
    "train_ep (model st) = Inr (m', tl)"
    and h: "history st' = history st @ [(k + 1, tl, v)]"
    and imp: "flt F v (best_val st) \<Longrightarrow> patience_left st' = patience args \<and> \<not> brk"
    and impb: "flt F v (best_val st) \<Longrightarrow> best_epoch st' = k + 1"
    and nimp: "\<not> flt F v (best_val st) \<Longrightarrow>
        best_epoch st' = best_epoch st
      \<and> (int k + 1 < minEpochs args \<longrightarrow> patience_left st' = patience_left st \<and> \<not> brk)
      \<and> (minEpochs args \<le> int k + 1 \<longrightarrow>
            patience_left st' = patience_left st - 1 \<and> brk = (patience_left st' \<le> 0))"
    by blast
  have lh': "length (history st') = Suc k" using h Suc.prems(3) by simp
  have sa: "state_after F args train_ep eval_val m0 (Suc k) = Some (st', brk)"
    using Suc.prems(2) body by simp
  have flag: "1 \<le> patience args \<longrightarrow> brk = (patience_left st' = 0)"
  proof
    assume p: "1 \<le> patience args"
    with Suc.prems(4) have pl: "1 \<le> patience_left st" by simp
    show "brk = (patience_left st' = 0)"
    proof (cases "flt F v (best_val st)")
      case True
      from imp [OF True] p show ?thesis by simp
    next
      case False
      from nimp [OF False] pl show ?thesis
        by (cases "minEpochs args \<le> int k + 1") auto
    qed
  qed
  have be: "best_epoch st' \<le> Suc k"
    using impb nimp Suc.prems(6) by (cases "flt F v (best_val st)") auto
  show ?case
  proof (cases brk)
    case True
    with rest have res: "res = st'" by simp
    from True imp have ni: "\<not> flt F v (best_val st)" by blast
    from nimp [OF ni] True have me: "minEpochs args \<le> int k + 1"
      and pl: "patience_left st' = patience_left st - 1" "patience_left st' \<le> 0"
      and bs: "best_epoch st' = best_epoch st"
      by auto
    have z: "1 \<le> patience args \<longrightarrow> patience_left st' = 0"
      using Suc.prems(4) pl by auto
    have early: "patience_left st' \<le> 0 \<and> minEpochs args \<le> int (Suc k)
           \<and> best_epoch st' < Suc k \<and> (1 \<le> patience args \<longrightarrow> patience_left st' = 0)"
      using me pl(2) bs Suc.prems(6) z by simp
    have tr: "\<exists>b. state_after F args train_ep eval_val m0 (Suc k) = Some (st', b)
              \<and> (k < Suc k \<and> Suc k < n \<longrightarrow> b)"
    proof (intro exI [of _ brk] conjI impI)
      show "state_after F args train_ep eval_val m0 (Suc k) = Some (st', brk)" by (rule sa)
      show brk by (rule True)
    qed
    have before: "\<forall>j. k < j \<and> j < Suc k \<longrightarrow>
              (\<exists>s. state_after F args train_ep eval_val m0 j = Some (s, False))"
      by auto
    have cnt: "1 \<le> patience args \<longrightarrow>
              (\<forall>j. k < j \<and> j \<le> Suc k \<longrightarrow>
                 (\<exists>s b. state_after F args train_ep eval_val m0 j = Some (s, b)
                        \<and> b = (patience_left s = 0)))"
    proof (intro allI impI)
      fix j assume p: "1 \<le> patience args" and "k < j \<and> j \<le> Suc k"
      then have "j = Suc k" by simp
      with sa flag p show "\<exists>s b. state_after F args train_ep eval_val m0 j = Some (s, b)
          \<and> b = (patience_left s = 0)"
        by blast
    qed
    from kn have "k \<le> Suc k \<and> Suc k \<le> n" by simp
    moreover have "Suc k = k \<longrightarrow> k = n" by simp
    ultimately show ?thesis
      unfolding res lh' using early tr before cnt by (intro conjI) simp_all
  next
    case False
    with rest have run': "run_epochs F args train_ep eval_val [Suc k..<n] st' = Inr res" by simp
    have pat: "1 \<le> patience args \<longrightarrow> 1 \<le> patience_left st'"
    proof (cases "flt F v (best_val st)")
      case True
      from imp [OF True] show ?thesis by simp
    next
      case ni: False
      from nimp [OF ni] False Suc.prems(4) show ?thesis
        by (cases "minEpochs args \<le> int k + 1") auto
    qed
    from Suc.hyps(2) have d: "d = n - Suc k" by simp
    from kn have le: "Suc k \<le> n" by simp
    from sa False have sa': "state_after F args train_ep eval_val m0 (Suc k) = Some (st', False)"
      by simp
    note ih = Suc.hyps(1) [OF d run' sa' lh' pat le be]
    define N where "N = length (history res)"
    from ih have i1: "Suc k \<le> N" and i0: "N \<le> n"
      and ie: "Suc k < N \<and> N < n \<longrightarrow>
             patience_left res \<le> 0 \<and> minEpochs args \<le> int N
           \<and> best_epoch res < N \<and> (1 \<le> patience args \<longrightarrow> patience_left res = 0)"
      and i2: "\<exists>b. state_after F args train_ep eval_val m0 N = Some (res, b)
              \<and> (Suc k < N \<and> N < n \<longrightarrow> b)"
      and i3: "N = Suc k \<longrightarrow> Suc k = n"
      and i4: "\<forall>j. Suc k < j \<and> j < N \<longrightarrow>
              (\<exists>s. state_after F args train_ep eval_val m0 j = Some (s, False))"
      and i5: "1 \<le> patience args \<longrightarrow>
              (\<forall>j. Suc k < j \<and> j \<le> N \<longrightarrow>
                 (\<exists>s b. state_after F args train_ep eval_val m0 j = Some (s, b)
                        \<and> b = (patience_left s = 0)))"
      unfolding N_def by blast+
    have c1: "k \<le> N \<and> N \<le> n" using i1 i0 by simp
    have ce: "k < N \<and> N < n \<longrightarrow>
             patience_left res \<le> 0 \<and> minEpochs args \<le> int N
           \<and> best_epoch res < N \<and> (1 \<le> patience args \<longrightarrow> patience_left res = 0)"
    proof
      assume a: "k < N \<and> N < n"
      with i3 have "N \<noteq> Suc k" by auto
      with a have "Suc k < N \<and> N < n" by simp
      with ie show "patience_left res \<le> 0 \<and> minEpochs args \<le> int N
           \<and> best_epoch res < N \<and> (1 \<le> patience args \<longrightarrow> patience_left res = 0)"
        by blast
    qed
    have c2: "\<exists>b. state_after F args train_ep eval_val m0 N = Some (res, b)
              \<and> (k < N \<and> N < n \<longrightarrow> b)"
    proof -
      from i2 obtain b where b: "state_after F args train_ep eval_val m0 N = Some (res, b)"
        "Suc k < N \<and> N < n \<longrightarrow> b"
        by blast
      have "k < N \<and> N < n \<longrightarrow> b"
      proof
        assume a: "k < N \<and> N < n"
        with i3 have "N \<noteq> Suc k" by auto
        with a have "Suc k < N" by simp
        with a b(2) show b by simp
      qed
      with b(1) show ?thesis by blast
    qed
    have c3: "N = k \<longrightarrow> k = n" using i1 by simp
    have c4: "\<forall>j. k < j \<and> j < N \<longrightarrow>
              (\<exists>s. state_after F args train_ep eval_val m0 j = Some (s, False))"
    proof (intro allI impI)
      fix j assume j: "k < j \<and> j < N"
      show "\<exists>s. state_after F args train_ep eval_val m0 j = Some (s, False)"
      proof (cases "j = Suc k")
        case True
        with sa' show ?thesis by blast
      next
        case False
        with j have "Suc k < j \<and> j < N" by simp
        with i4 show ?thesis by blast
      qed
    qed
    have c5: "1 \<le> patience args \<longrightarrow>
              (\<forall>j. k < j \<and> j \<le> N \<longrightarrow>
                 (\<exists>s b. state_after F args train_ep eval_val m0 j = Some (s, b)
                        \<and> b = (patience_left s = 0)))"
    proof (intro allI impI)
      fix j assume p: "1 \<le> patience args" and j: "k < j \<and> j \<le> N"
      show "\<exists>s b. state_after F args train_ep eval_val m0 j = Some (s, b) \<and> b = (patience_left s = 0)"
      proof (cases "j = Suc k")
        case True
        from flag p have "brk = (patience_left st' = 0)" by simp
        with sa True show ?thesis by blast
      next
        case False
        with j have "Suc k < j \<and> j \<le> N" by simp
        with i5 p show ?thesis by blast
      qed
    qed
    from c1 ce c2 c3 c4 c5 show ?thesis unfolding N_def by (intro conjI) simp_all
  qed
qed

text \<open>
  Claim C3, as the code has it. In every turn of the loop body: a validation loss strictly
  below the best so far resets the counter to \<open>patience\<close>, takes the snapshot of the live
  model and does not raise the break flag; any other loss leaves the snapshot alone, leaves
  the counter alone before \<open>minEpochs\<close>, and from \<open>minEpochs\<close> on takes one off the counter
  and raises the flag exactly when the counter is then at most zero, which for a counter
  that was positive is exactly when it is zero. The loop runs the body turn by turn and
  ends at the first raised flag or with the epoch budget: when it has ended without an
  exception after \<open>n\<close> turns, \<open>n\<close> is at most \<open>epochs\<close>, no turn before the \<open>n\<close>-th raised the
  flag, the \<open>n\<close>-th did if \<open>n\<close> is below \<open>epochs\<close>, and the result is the state after that
  turn with the best snapshot restored. With \<open>patience\<close> at least 1, each of these turns
  raised the flag exactly when it left the counter at zero; so the loop goes on while the
  counter is not zero and stops early exactly when it is. If the recorded losses are
  ordered by \<^verbatim>\<open><\<close>: when no loss was below \<^verbatim>\<open>math.inf\<close> the final parameters are the live
  ones; otherwise they are the snapshot of the model after \<open>best_epoch\<close> passes, whose
  loss no recorded loss undercuts and which undercuts every earlier one: the first epoch
  of least loss, whether or not it is the last.
\<close>

theorem train_loop_early_stopping:
  assumes run: "train_loop F args train_ep eval_val m0 = Inr res"
  shows "(\<forall>st e st' brk. epoch_body F args train_ep eval_val st e = Inr (st', brk) \<longrightarrow>
            (\<exists>tl v. history st' = history st @ [(e + 1, tl, v)]
               \<and> (flt F v (best_val st) \<longrightarrow>
                     patience_left st' = patience args
                   \<and> best_snapshot st' = Some (take_snapshot (model st')) \<and> \<not> brk)
               \<and> (\<not> flt F v (best_val st) \<longrightarrow>
                     best_snapshot st' = best_snapshot st
                   \<and> (int e + 1 < minEpochs args \<longrightarrow> patience_left st' = patience_left st \<and> \<not> brk)
                   \<and> (minEpochs args \<le> int e + 1 \<longrightarrow>
                         patience_left st' = patience_left st - 1
                       \<and> brk = (patience_left st' \<le> 0)
                       \<and> (1 \<le> patience_left st \<longrightarrow> brk = (patience_left st' = 0))))))
       \<and> length (history res) \<le> nat (epochs args)
       \<and> (\<forall>k. 0 < k \<and> k < length (history res) \<longrightarrow>
              (\<exists>st. state_after F args train_ep eval_val m0 k = Some (st, False)))
       \<and> (\<exists>st b. state_after F args train_ep eval_val m0 (length (history res)) = Some (st, b)
                 \<and> res = restore_best st
                 \<and> (length (history res) < nat (epochs args) \<longrightarrow> b))
       \<and> (1 \<le> patience args \<longrightarrow>
              (\<forall>k. 0 < k \<and> k \<le> length (history res) \<longrightarrow>
                 (\<exists>st b. state_after F args train_ep eval_val m0 k = Some (st, b)
                         \<and> b = (patience_left st = 0))))
       \<and> (length (history res) < nat (epochs args) \<longrightarrow>
             patience_left res \<le> 0 \<and> minEpochs args \<le> int (length (history res))
           \<and> best_epoch res < length (history res)
           \<and> (1 \<le> patience args \<longrightarrow> patience_left res = 0))
       \<and> (ordered_on F (insert (finf F) (set (val_losses res))) \<longrightarrow>
             (best_epoch res = 0 \<longrightarrow>
             (\<forall>v \<in> set (val_losses res). \<not> flt F v (finf F))
           \<and> model_after train_ep m0 (length (history res)) = Some (model res))
       \<and> (0 < best_epoch res \<longrightarrow>
             best_epoch res \<le> length (history res)
           \<and> (\<exists>mb. model_after train_ep m0 (best_epoch res) = Some mb
                  \<and> take_snapshot (model res) = take_snapshot mb)
           \<and> best_val res = val_losses res ! (best_epoch res - 1)
           \<and> (\<forall>v \<in> set (val_losses res). \<not> flt F v (best_val res))
           \<and> (\<forall>j < best_epoch res - 1. flt F (best_val res) (val_losses res ! j))))"
proof -
  have step: "\<forall>st e st' brk. epoch_body F args train_ep eval_val st e = Inr (st', brk) \<longrightarrow>
            (\<exists>tl v. history st' = history st @ [(e + 1, tl, v)]
               \<and> (flt F v (best_val st) \<longrightarrow>
                     patience_left st' = patience args
                   \<and> best_snapshot st' = Some (take_snapshot (model st')) \<and> \<not> brk)
               \<and> (\<not> flt F v (best_val st) \<longrightarrow>
                     best_snapshot st' = best_snapshot st
                   \<and> (int e + 1 < minEpochs args \<longrightarrow> patience_left st' = patience_left st \<and> \<not> brk)
                   \<and> (minEpochs args \<le> int e + 1 \<longrightarrow>
                         patience_left st' = patience_left st - 1
                       \<and> brk = (patience_left st' \<le> 0)
                       \<and> (1 \<le> patience_left st \<longrightarrow> brk = (patience_left st' = 0)))))"
  proof (intro allI impI)
    fix st e st' brk
    assume "epoch_body F args train_ep eval_val st e = Inr (st', brk)"
    from epoch_body_step [OF this] obtain m' tl v where
      "model st' = m'" "history st' = history st @ [(e + 1, tl, v)]"
      "flt F v (best_val st) \<longrightarrow>
         best_snapshot st' = Some (take_snapshot m') \<and> patience_left st' = patience args \<and> \<not> brk"
      "\<not> flt F v (best_val st) \<longrightarrow>
         best_snapshot st' = best_snapshot st
       \<and> (int e + 1 < minEpochs args \<longrightarrow> patience_left st' = patience_left st \<and> \<not> brk)
       \<and> (minEpochs args \<le> int e + 1 \<longrightarrow>
             patience_left st' = patience_left st - 1 \<and> brk = (patience_left st' \<le> 0))"
      by blast
    then have "history st' = history st @ [(e + 1, tl, v)]
               \<and> (flt F v (best_val st) \<longrightarrow>
                     patience_left st' = patience args
                   \<and> best_snapshot st' = Some (take_snapshot (model st')) \<and> \<not> brk)
               \<and> (\<not> flt F v (best_val st) \<longrightarrow>
                     best_snapshot st' = best_snapshot st
                   \<and> (int e + 1 < minEpochs args \<longrightarrow> patience_left st' = patience_left st \<and> \<not> brk)
                   \<and> (minEpochs args \<le> int e + 1 \<longrightarrow>
                         patience_left st' = patience_left st - 1
                       \<and> brk = (patience_left st' \<le> 0)
                       \<and> (1 \<le> patience_left st \<longrightarrow> brk = (patience_left st' = 0))))"
      by auto
    then show "\<exists>tl v. history st' = history st @ [(e + 1, tl, v)]
               \<and> (flt F v (best_val st) \<longrightarrow>
                     patience_left st' = patience args
                   \<and> best_snapshot st' = Some (take_snapshot (model st')) \<and> \<not> brk)
               \<and> (\<not> flt F v (best_val st) \<longrightarrow>
                     best_snapshot st' = best_snapshot st
                   \<and> (int e + 1 < minEpochs args \<longrightarrow> patience_left st' = patience_left st \<and> \<not> brk)
                   \<and> (minEpochs args \<le> int e + 1 \<longrightarrow>
                         patience_left st' = patience_left st - 1
                       \<and> brk = (patience_left st' \<le> 0)
                       \<and> (1 \<le> patience_left st \<longrightarrow> brk = (patience_left st' = 0))))"
      by - (rule exI, rule exI)
  qed
  from run obtain stf where
    loop: "run_epochs F args train_ep eval_val [0..<nat (epochs args)] (initial_state F args m0) = Inr stf"
    and res: "res = restore_best stf"
    by (cases "run_epochs F args train_ep eval_val [0..<nat (epochs args)] (initial_state F args m0)")
      (auto simp: train_loop_def)
  have pat0: "1 \<le> patience args \<longrightarrow> 1 \<le> patience_left (initial_state F args m0)"
    by (simp add: initial_state_def)
  have sa0: "state_after F args train_ep eval_val m0 0 = Some (initial_state F args m0, False)"
    by simp
  have lh0: "length (history (initial_state F args m0)) = 0"
    and be0: "best_epoch (initial_state F args m0) \<le> 0"
    by (simp_all add: initial_state_def)
  have hres: "length (history res) = length (history stf)"
    by (simp add: res restore_best_fields)
  note tr = run_epochs_trace [OF loop sa0 lh0 pat0 _ be0]
  from tr have len: "length (history stf) \<le> nat (epochs args)"
    and zero: "length (history stf) = 0 \<longrightarrow> 0 = nat (epochs args)"
    and early0: "0 < length (history stf) \<and> length (history stf) < nat (epochs args) \<longrightarrow>
             patience_left stf \<le> 0 \<and> minEpochs args \<le> int (length (history stf))
           \<and> best_epoch stf < length (history stf)
           \<and> (1 \<le> patience args \<longrightarrow> patience_left stf = 0)"
    and last0: "\<exists>b. state_after F args train_ep eval_val m0 (length (history stf)) = Some (stf, b)
              \<and> (0 < length (history stf) \<and> length (history stf) < nat (epochs args) \<longrightarrow> b)"
    and before0: "\<forall>j. 0 < j \<and> j < length (history stf) \<longrightarrow>
              (\<exists>s. state_after F args train_ep eval_val m0 j = Some (s, False))"
    and cnt0: "1 \<le> patience args \<longrightarrow>
              (\<forall>j. 0 < j \<and> j \<le> length (history stf) \<longrightarrow>
                 (\<exists>s b. state_after F args train_ep eval_val m0 j = Some (s, b)
                        \<and> b = (patience_left s = 0)))"
    by simp_all
  have pos: "length (history stf) < nat (epochs args) \<Longrightarrow> 0 < length (history stf)"
    using zero by auto
  have len': "length (history res) \<le> nat (epochs args)"
    using len by (simp add: hres)
  have before: "\<forall>k. 0 < k \<and> k < length (history res) \<longrightarrow>
              (\<exists>st. state_after F args train_ep eval_val m0 k = Some (st, False))"
    using before0 by (simp add: hres)
  have last: "\<exists>st b. state_after F args train_ep eval_val m0 (length (history res)) = Some (st, b)
                 \<and> res = restore_best st
                 \<and> (length (history res) < nat (epochs args) \<longrightarrow> b)"
  proof -
    from last0 obtain b where b: "state_after F args train_ep eval_val m0 (length (history stf)) = Some (stf, b)"
      "0 < length (history stf) \<and> length (history stf) < nat (epochs args) \<longrightarrow> b"
      by blast
    have "length (history res) < nat (epochs args) \<longrightarrow> b"
      using b(2) pos by (auto simp: hres)
    with b(1) res show ?thesis
      unfolding hres by blast
  qed
  have cnt: "1 \<le> patience args \<longrightarrow>
              (\<forall>k. 0 < k \<and> k \<le> length (history res) \<longrightarrow>
                 (\<exists>st b. state_after F args train_ep eval_val m0 k = Some (st, b)
                         \<and> b = (patience_left st = 0)))"
    using cnt0 by (simp add: hres)
  have early': "length (history res) < nat (epochs args) \<longrightarrow>
             patience_left res \<le> 0 \<and> minEpochs args \<le> int (length (history res))
           \<and> best_epoch res < length (history res)
           \<and> (1 \<le> patience args \<longrightarrow> patience_left res = 0)"
  proof
    assume a: "length (history res) < nat (epochs args)"
    then have "0 < length (history stf) \<and> length (history stf) < nat (epochs args)"
      using pos by (simp add: hres)
    with early0 show "patience_left res \<le> 0 \<and> minEpochs args \<le> int (length (history res))
           \<and> best_epoch res < length (history res)
           \<and> (1 \<le> patience args \<longrightarrow> patience_left res = 0)"
      by (simp add: res restore_best_fields)
  qed
  have snap: "ordered_on F (insert (finf F) (set (val_losses res))) \<longrightarrow>
             (best_epoch res = 0 \<longrightarrow>
             (\<forall>v \<in> set (val_losses res). \<not> flt F v (finf F))
           \<and> model_after train_ep m0 (length (history res)) = Some (model res))
       \<and> (0 < best_epoch res \<longrightarrow>
             best_epoch res \<le> length (history res)
           \<and> (\<exists>mb. model_after train_ep m0 (best_epoch res) = Some mb
                  \<and> take_snapshot (model res) = take_snapshot mb)
           \<and> best_val res = val_losses res ! (best_epoch res - 1)
           \<and> (\<forall>v \<in> set (val_losses res). \<not> flt F v (best_val res))
           \<and> (\<forall>j < best_epoch res - 1. flt F (best_val res) (val_losses res ! j)))"
  proof
    assume ord: "ordered_on F (insert (finf F) (set (val_losses res)))"
    define V where "V = insert (finf F) (set (val_losses res))"
    have ordV: "ordered_on F V" using ord by (simp add: V_def)
    have inV: "finf F \<in> V" by (simp add: V_def)
    have sub: "set (val_losses stf) \<subseteq> V" by (auto simp: V_def res restore_best_fields)
    note fin = run_epochs_inv [OF loop loop_inv_initial pat0 _ ordV inV sub]
    then have inv: "loop_inv F train_ep m0 (length (history stf)) stf"
      by simp
    have none: "best_epoch res = 0 \<longrightarrow>
               (\<forall>v \<in> set (val_losses res). \<not> flt F v (finf F))
             \<and> model_after train_ep m0 (length (history res)) = Some (model res)"
    proof
      assume "best_epoch res = 0"
      then have z: "best_epoch stf = 0" by (simp add: res restore_best_fields)
      with inv have "best_snapshot stf = None" "\<forall>v \<in> set (val_losses stf). \<not> flt F v (finf F)"
        "model_after train_ep m0 (length (history stf)) = Some (model stf)"
        by (simp_all add: loop_inv_def)
      then show "(\<forall>v \<in> set (val_losses res). \<not> flt F v (finf F))
             \<and> model_after train_ep m0 (length (history res)) = Some (model res)"
        by (simp add: res restore_best_fields)
    qed
    have some: "0 < best_epoch res \<longrightarrow>
               best_epoch res \<le> length (history res)
             \<and> (\<exists>mb. model_after train_ep m0 (best_epoch res) = Some mb
                    \<and> take_snapshot (model res) = take_snapshot mb)
             \<and> best_val res = val_losses res ! (best_epoch res - 1)
             \<and> (\<forall>v \<in> set (val_losses res). \<not> flt F v (best_val res))
             \<and> (\<forall>j < best_epoch res - 1. flt F (best_val res) (val_losses res ! j))"
    proof
      assume "0 < best_epoch res"
      then have p: "0 < best_epoch stf" by (simp add: res restore_best_fields)
      with inv obtain mb where mb: "model_after train_ep m0 (best_epoch stf) = Some mb"
        "best_snapshot stf = Some (take_snapshot mb)"
        and rest: "best_epoch stf \<le> length (history stf)"
          "best_val stf = val_losses stf ! (best_epoch stf - 1)"
          "\<forall>v \<in> set (val_losses stf). \<not> flt F v (best_val stf)"
          "\<forall>j < best_epoch stf - 1. flt F (best_val stf) (val_losses stf ! j)"
        by (auto simp: loop_inv_def)
      from mb(2) have "take_snapshot (model res) = take_snapshot mb"
        unfolding res by (rule restore_best_fields(7))
      with mb(1) have "\<exists>mb. model_after train_ep m0 (best_epoch res) = Some mb
                    \<and> take_snapshot (model res) = take_snapshot mb"
        by (simp add: res restore_best_fields)
      with rest show "best_epoch res \<le> length (history res)
             \<and> (\<exists>mb. model_after train_ep m0 (best_epoch res) = Some mb
                    \<and> take_snapshot (model res) = take_snapshot mb)
             \<and> best_val res = val_losses res ! (best_epoch res - 1)
             \<and> (\<forall>v \<in> set (val_losses res). \<not> flt F v (best_val res))
             \<and> (\<forall>j < best_epoch res - 1. flt F (best_val res) (val_losses res ! j))"
        by (simp add: res restore_best_fields)
    qed
    from none some show "(best_epoch res = 0 \<longrightarrow>
             (\<forall>v \<in> set (val_losses res). \<not> flt F v (finf F))
           \<and> model_after train_ep m0 (length (history res)) = Some (model res))
       \<and> (0 < best_epoch res \<longrightarrow>
             best_epoch res \<le> length (history res)
           \<and> (\<exists>mb. model_after train_ep m0 (best_epoch res) = Some mb
                  \<and> take_snapshot (model res) = take_snapshot mb)
           \<and> best_val res = val_losses res ! (best_epoch res - 1)
           \<and> (\<forall>v \<in> set (val_losses res). \<not> flt F v (best_val res))
           \<and> (\<forall>j < best_epoch res - 1. flt F (best_val res) (val_losses res ! j)))"
      by (intro conjI)
  qed
  from step len' before last cnt early' snap show ?thesis by (intro conjI)
qed

theorem train_loop_early_stopping_witness:
  "train_loop exact_ops \<lparr>epochs = 6, lr = Fin 0, huberDelta = Fin 100, minEpochs = 3, patience = 2\<rparr>
     (\<lambda>m. Inr (m\<lparr>b2 := x_add (b2 m) (Fin 1)\<rparr>, Fin 0))
     (\<lambda>m. Inr (if b2 m = Fin 1 then Fin 5 else if b2 m = Fin 2 then Fin 3 else Fin 4))
     \<lparr>input_size = 0, hidden_size = 0, w1 = [], b1 = [], w2 = [], b2 = Fin 0\<rparr>
   = Inr \<lparr>model = \<lparr>input_size = 0, hidden_size = 0, w1 = [], b1 = [], w2 = [], b2 = Fin 2\<rparr>,
          history = [(1, Fin 0, Fin 5), (2, Fin 0, Fin 3), (3, Fin 0, Fin 4), (4, Fin 0, Fin 4)],
          best_val = Fin 3, best_epoch = 2,
          best_snapshot = Some ([], [], [], Fin 2), patience_left = 0\<rparr>
   \<and> ordered_on exact_ops {PInf, Fin 5, Fin 3, Fin 4}
   \<and> model_after (\<lambda>m. Inr (m\<lparr>b2 := x_add (b2 m) (Fin 1)\<rparr>, Fin 0))
        \<lparr>input_size = 0, hidden_size = 0, w1 = [], b1 = [], w2 = [], b2 = Fin 0\<rparr> 2
      = Some \<lparr>input_size = 0, hidden_size = 0, w1 = [], b1 = [], w2 = [], b2 = Fin 2\<rparr>
   \<and> (\<exists>st. state_after exact_ops
              \<lparr>epochs = 6, lr = Fin 0, huberDelta = Fin 100, minEpochs = 3, patience = 2\<rparr>
              (\<lambda>m. Inr (m\<lparr>b2 := x_add (b2 m) (Fin 1)\<rparr>, Fin 0))
              (\<lambda>m. Inr (if b2 m = Fin 1 then Fin 5 else if b2 m = Fin 2 then Fin 3 else Fin 4))
              \<lparr>input_size = 0, hidden_size = 0, w1 = [], b1 = [], w2 = [], b2 = Fin 0\<rparr> 3
            = Some (st, False))
   \<and> (\<exists>st. state_after exact_ops
              \<lparr>epochs = 6, lr = Fin 0, huberDelta = Fin 100, minEpochs = 3, patience = 2\<rparr>
              (\<lambda>m. Inr (m\<lparr>b2 := x_add (b2 m) (Fin 1)\<rparr>, Fin 0))
              (\<lambda>m. Inr (if b2 m = Fin 1 then Fin 5 else if b2 m = Fin 2 then Fin 3 else Fin 4))
              \<lparr>input_size = 0, hidden_size = 0, w1 = [], b1 = [], w2 = [], b2 = Fin 0\<rparr> 4
            = Some (st, True))"
proof -
  let ?args = "\<lparr>epochs = 6, lr = Fin 0, huberDelta = Fin 100, minEpochs = 3, patience = 2\<rparr>"
  let ?te = "\<lambda>m. Inr (m\<lparr>b2 := x_add (b2 m) (Fin 1)\<rparr>, Fin 0) :: py_error + xfloat nnue_model \<times> xfloat"
  let ?ev = "\<lambda>m :: xfloat nnue_model.
      Inr (if b2 m = Fin 1 then Fin 5 else if b2 m = Fin 2 then Fin 3 else Fin 4) :: py_error + xfloat"
  let ?m0 = "\<lparr>input_size = 0, hidden_size = 0, w1 = [], b1 = [], w2 = [], b2 = Fin 0\<rparr>"
  let ?res = "\<lparr>model = \<lparr>input_size = 0, hidden_size = 0, w1 = [], b1 = [], w2 = [], b2 = Fin 2\<rparr>,
          history = [(1, Fin 0, Fin 5), (2, Fin 0, Fin 3), (3, Fin 0, Fin 4), (4, Fin 0, Fin 4)],
          best_val = Fin 3, best_epoch = 2,
          best_snapshot = Some ([], [], [], Fin 2), patience_left = 0\<rparr>"
  have up: "[0..<6] = [0 :: nat, 1, 2, 3, 4, 5]" by code_simp
  have run: "train_loop exact_ops ?args ?te ?ev ?m0 = Inr ?res"
    by (simp add: train_loop_def up epoch_body_def initial_state_def restore_best_def take_snapshot_def exact_ops_def
        x_lt_def Let_def)
  have ord: "ordered_on exact_ops {PInf, Fin 5, Fin 3, Fin 4}"
    by (simp add: ordered_on_def exact_ops_def x_lt_def)
  have ord': "ordered_on exact_ops (insert (finf exact_ops) (set (val_losses ?res)))"
    using ord by (simp add: val_losses_def exact_ops_def insert_commute)
  have ma: "model_after ?te ?m0 2 = Some \<lparr>input_size = 0, hidden_size = 0, w1 = [], b1 = [], w2 = [], b2 = Fin 2\<rparr>"
    by (simp add: numeral_2_eq_2)
  note inst = train_loop_early_stopping [OF run]
  have n: "length (history ?res) = 4" by simp
  from inst have "\<forall>k. 0 < k \<and> k < length (history ?res) \<longrightarrow>
      (\<exists>st. state_after exact_ops ?args ?te ?ev ?m0 k = Some (st, False))"
    by (elim conjE)
  then have t3: "\<exists>st. state_after exact_ops ?args ?te ?ev ?m0 3 = Some (st, False)"
    unfolding n by simp
  from inst have "\<exists>st b. state_after exact_ops ?args ?te ?ev ?m0 (length (history ?res)) = Some (st, b)
      \<and> Inr ?res = (Inr (restore_best st) :: py_error + xfloat loop_state)
      \<and> (length (history ?res) < nat (epochs ?args) \<longrightarrow> b)"
    by (elim conjE) simp
  then have t4: "\<exists>st. state_after exact_ops ?args ?te ?ev ?m0 4 = Some (st, True)"
    unfolding n by auto
  from inst ord' run ord ma t3 t4 show ?thesis
    by (intro conjI)
qed

text \<open>
  Claim C3 as stated fails for \<open>patience = 0\<close>: the counter is zero after the first epoch,
  an improvement, and after every later one, yet the loop runs all three epochs.
\<close>

theorem train_loop_zero_patience:
  "epoch_body exact_ops \<lparr>epochs = 3, lr = Fin 0, huberDelta = Fin 100, minEpochs = 1, patience = 0\<rparr>
     (\<lambda>m. Inr (m\<lparr>b2 := x_add (b2 m) (Fin 1)\<rparr>, Fin 0))
     (\<lambda>m. Inr (x_neg (b2 m)))
     (initial_state exact_ops \<lparr>epochs = 3, lr = Fin 0, huberDelta = Fin 100, minEpochs = 1, patience = 0\<rparr>
        \<lparr>input_size = 0, hidden_size = 0, w1 = [], b1 = [], w2 = [], b2 = Fin 0\<rparr>) 0
   = Inr (\<lparr>model = \<lparr>input_size = 0, hidden_size = 0, w1 = [], b1 = [], w2 = [], b2 = Fin 1\<rparr>,
           history = [(1, Fin 0, Fin (- 1))], best_val = Fin (- 1), best_epoch = 1,
           best_snapshot = Some ([], [], [], Fin 1), patience_left = 0\<rparr>, False)
   \<and> train_loop exact_ops \<lparr>epochs = 3, lr = Fin 0, huberDelta = Fin 100, minEpochs = 1, patience = 0\<rparr>
     (\<lambda>m. Inr (m\<lparr>b2 := x_add (b2 m) (Fin 1)\<rparr>, Fin 0))
     (\<lambda>m. Inr (x_neg (b2 m)))
     \<lparr>input_size = 0, hidden_size = 0, w1 = [], b1 = [], w2 = [], b2 = Fin 0\<rparr>
   = Inr \<lparr>model = \<lparr>input_size = 0, hidden_size = 0, w1 = [], b1 = [], w2 = [], b2 = Fin 3\<rparr>,
          history = [(1, Fin 0, Fin (- 1)), (2, Fin 0, Fin (- 2)), (3, Fin 0, Fin (- 3))],
          best_val = Fin (- 3), best_epoch = 3,
          best_snapshot = Some ([], [], [], Fin 3), patience_left = 0\<rparr>"
proof -
  have up: "[0..<3] = [0 :: nat, 1, 2]" by code_simp
  show ?thesis
    by (simp add: train_loop_def up epoch_body_def initial_state_def restore_best_def take_snapshot_def exact_ops_def
        x_lt_def Let_def)
qed

section \<open>The weight file\<close>

lemma of_le32_le32: "of_le32 (le32 w) = w"
proof (rule bit_word_eqI)
  fix n
  assume "n < LENGTH(32)"
  then consider "n < 8" | "8 \<le> n" "n < 16" | "16 \<le> n" "n < 24" | "24 \<le> n" "n < 32"
    by fastforce
  then show "bit (of_le32 (le32 w)) n = bit w n"
    by cases (auto simp: le32_def bit_simps)
qed

lemma length_le32: "length (le32 w) = 4"
  by (simp add: le32_def)

lemma write_floats_ok:
  "\<forall>v \<in> set vs. pack v \<noteq> None \<Longrightarrow>
   write_floats pack vs out = (out @ concat (map (\<lambda>v. le32 (the (pack v))) vs), None)"
  by (induction vs arbitrary: out) auto

lemma write_rows_ok:
  "\<forall>row \<in> set rows. \<forall>v \<in> set row. pack v \<noteq> None \<Longrightarrow>
   write_rows pack rows out = (out @ concat (map (\<lambda>v. le32 (the (pack v))) (concat rows)), None)"
  by (induction rows arbitrary: out) (auto simp: write_floats_ok)

lemma length_packed: "length (concat (map (\<lambda>v. le32 (the (pack v))) vs)) = 4 * length vs"
  by (induction vs) (simp_all add: length_le32)

lemma decode_packed:
  "decode_floats (concat (map (\<lambda>v. le32 (the (pack v))) vs)) = map (\<lambda>v. the (pack v)) vs"
proof (induction vs)
  case Nil
  show ?case by simp
next
  case (Cons v vs)
  obtain a b c d where e: "le32 (the (pack v)) = [a, b, c, d]"
    by (simp add: le32_def)
  have "of_le32 [a, b, c, d] = the (pack v)"
    using of_le32_le32 [of "the (pack v)"] e by simp
  with Cons e show ?case by simp
qed

lemma length_concat_rows:
  "\<forall>row \<in> set rows. length row = h \<Longrightarrow> length (concat rows) = length rows * h"
  by (induction rows) simp_all

lemma length_header: "pack_header n h = Inr hdr \<Longrightarrow> length (MAGIC @ hdr) = 12"
  by (auto simp: pack_header_def MAGIC_def le16_def split: if_splits)


lemma write_snnue_packed:
  assumes creat: "can_create fs path"
    and hdr: "pack_header n h = Inr hdr"
    and packs: "\<forall>v \<in> set (concat rows @ bs @ ws @ [b]). pack v \<noteq> None"
  shows "write_snnue pack fs path n h rows bs ws b =
           (fs\<lparr>files := (files fs)(path \<mapsto>
                  MAGIC @ hdr @ concat (map (\<lambda>v. le32 (the (pack v))) (concat rows @ bs @ ws @ [b])))\<rparr>,
            if 12 + 4 * (length (concat rows) + length bs + length ws + 1) \<noteq> 12 + (n * h + h + h + 1) * 4
            then Some ValueError else None)"
proof -
  from packs have p1: "\<forall>row \<in> set rows. \<forall>v \<in> set row. pack v \<noteq> None"
    and p2: "\<forall>v \<in> set bs. pack v \<noteq> None" and p3: "\<forall>v \<in> set ws. pack v \<noteq> None"
    and p4: "\<forall>v \<in> set [b]. pack v \<noteq> None"
    by auto
  have len: "length (MAGIC @ hdr) = 12" using hdr by (rule length_header)
  then have len': "length hdr = 8" by (simp add: MAGIC_def)
  show ?thesis
    unfolding write_snnue_def Let_def
    using creat hdr len'
    by (simp add: write_rows_ok [OF p1] write_floats_ok [OF p2] write_floats_ok [OF p3]
        write_floats_ok [OF p4] length_packed MAGIC_def length_le32
        del: write_floats.simps write_rows.simps)
qed

text \<open>
  Claim C5. When the path can be opened, the shapes are \<open>n\<close> rows of \<open>h\<close> values with
  \<open>h\<close> biases and \<open>h\<close> output weights (the program's are 768 and 64), and every
  parameter has a single-precision image, \<^verbatim>\<open>write_snnue\<close> returns normally and leaves a file
  of exactly \<open>12 + (n * h + h + h + 1) * 4\<close> bytes: the magic and the four header fields,
  then the parameters, whose 4-byte little-endian groups decode to the single-precision
  image of \<open>w1\<close> row by row, then \<open>b1\<close>, then \<open>w2\<close>, then \<open>b2\<close>.
\<close>

theorem write_snnue_roundtrip:
  assumes creat: "can_create fs path"
    and sizes: "n \<le> 65535" "h \<le> 65535"
    and shape: "length rows = n" "\<forall>row \<in> set rows. length row = h" "length bs = h" "length ws = h"
    and packs: "\<forall>v \<in> set (concat rows @ bs @ ws @ [b]). pack v \<noteq> None"
  shows "\<exists>out. write_snnue pack fs path n h rows bs ws b = (fs\<lparr>files := (files fs)(path \<mapsto> out)\<rparr>, None)
       \<and> length out = 12 + (n * h + h + h + 1) * 4
       \<and> take 12 out = MAGIC @ le16 n @ le16 h @ le16 VERSION @ le16 FLAGS
       \<and> map Some (decode_floats (drop 12 out)) = map pack (concat rows @ bs @ ws @ [b])"
proof -
  define hdr where "hdr = le16 n @ le16 h @ le16 VERSION @ le16 FLAGS"
  define vals where "vals = concat rows @ bs @ ws @ [b]"
  define out where "out = MAGIC @ hdr @ concat (map (\<lambda>v. le32 (the (pack v))) vals)"
  have hdr: "pack_header n h = Inr hdr"
    using sizes by (simp add: pack_header_def hdr_def VERSION_def FLAGS_def)
  have l12: "length (MAGIC @ hdr) = 12" using hdr by (rule length_header)
  have nvals: "length vals = n * h + h + h + 1"
    using shape length_concat_rows [OF shape(2)] by (simp add: vals_def)
  have "write_snnue pack fs path n h rows bs ws b = (fs\<lparr>files := (files fs)(path \<mapsto> out)\<rparr>, None)"
    using write_snnue_packed [OF creat hdr packs] nvals
    by (simp add: out_def vals_def)
  moreover have "length out = 12 + (n * h + h + h + 1) * 4"
    using l12 nvals by (simp add: out_def length_packed)
  moreover have "take 12 out = MAGIC @ hdr"
    using l12 by (simp add: out_def)
  moreover have "map Some (decode_floats (drop 12 out)) = map pack vals"
  proof -
    have "drop 12 out = concat (map (\<lambda>v. le32 (the (pack v))) vals)"
      using l12 by (simp add: out_def)
    then have "decode_floats (drop 12 out) = map (\<lambda>v. the (pack v)) vals"
      by (simp only: decode_packed)
    moreover have "map Some (map (\<lambda>v. the (pack v)) vals) = map pack vals"
      using packs unfolding vals_def [symmetric] by (induction vals) auto
    ultimately show ?thesis by simp
  qed
  ultimately show ?thesis
    unfolding hdr_def vals_def by blast
qed

lemma write_snnue_shape:
  assumes "can_create fs path"
  shows "\<exists>out r. write_snnue pack fs path n h rows bs ws b = (fs\<lparr>files := (files fs)(path \<mapsto> out)\<rparr>, r)
       \<and> (r = None \<longrightarrow> length out = 12 + (n * h + h + h + 1) * 4)"
proof (cases "pack_header n h")
  case (Inl e)
  then show ?thesis using assms by (simp add: write_snnue_def Let_def) blast
next
  case (Inr hdr)
  obtain o1 r1 where 1: "write_rows pack rows (MAGIC @ hdr) = (o1, r1)"
    by (cases "write_rows pack rows (MAGIC @ hdr)")
  obtain o2 r2 where 2: "write_floats pack bs o1 = (o2, r2)"
    by (cases "write_floats pack bs o1")
  obtain o3 r3 where 3: "write_floats pack ws o2 = (o3, r3)"
    by (cases "write_floats pack ws o2")
  obtain o4 r4 where 4: "write_floats pack [b] o3 = (o4, r4)"
    by (cases "write_floats pack [b] o3")
  show ?thesis
    using assms Inr 1 2 3 4
    by (cases r1; cases r2; cases r3; cases r4;
        simp add: write_snnue_def Let_def del: write_floats.simps write_rows.simps; blast?)
qed

text \<open>
  Claim C1, as the code has it. Once the path has been opened, \<^verbatim>\<open>write_snnue\<close> always
  leaves a file at the path, holding the bytes written up to the point where it returned
  or raised. A normal return means the file has the expected length. When the header and
  every parameter can be packed, the file holds twelve bytes and four per parameter, and
  the call raises \<^verbatim>\<open>ValueError\<close> exactly when that differs from the expected length: the
  file of the wrong length stays where it is.
\<close>

theorem write_snnue_leaves_file:
  assumes creat: "can_create fs path"
  shows "\<exists>out. fst (write_snnue pack fs path n h rows bs ws b) = fs\<lparr>files := (files fs)(path \<mapsto> out)\<rparr>
       \<and> (snd (write_snnue pack fs path n h rows bs ws b) = None \<longrightarrow> length out = 12 + (n * h + h + h + 1) * 4)
       \<and> (n \<le> 65535 \<and> h \<le> 65535 \<and> (\<forall>v \<in> set (concat rows @ bs @ ws @ [b]). pack v \<noteq> None) \<longrightarrow>
            length out = 12 + 4 * (length (concat rows) + length bs + length ws + 1)
          \<and> snd (write_snnue pack fs path n h rows bs ws b) =
              (if length out \<noteq> 12 + (n * h + h + h + 1) * 4 then Some ValueError else None))"
proof (cases "n \<le> 65535 \<and> h \<le> 65535 \<and> (\<forall>v \<in> set (concat rows @ bs @ ws @ [b]). pack v \<noteq> None)")
  case True
  define hdr where "hdr = le16 n @ le16 h @ le16 VERSION @ le16 FLAGS"
  have hdr: "pack_header n h = Inr hdr"
    using True by (simp add: pack_header_def hdr_def VERSION_def FLAGS_def)
  have l12: "length (MAGIC @ hdr) = 12" using hdr by (rule length_header)
  from True have packs: "\<forall>v \<in> set (concat rows @ bs @ ws @ [b]). pack v \<noteq> None" by simp
  define out where "out = MAGIC @ hdr @ concat (map (\<lambda>v. le32 (the (pack v))) (concat rows @ bs @ ws @ [b]))"
  have lo: "length out = 12 + 4 * (length (concat rows) + length bs + length ws + 1)"
    using l12 by (simp add: out_def length_packed length_le32)
  have run: "write_snnue pack fs path n h rows bs ws b =
      (fs\<lparr>files := (files fs)(path \<mapsto> out)\<rparr>,
       if length out \<noteq> 12 + (n * h + h + h + 1) * 4 then Some ValueError else None)"
    unfolding lo unfolding out_def by (rule write_snnue_packed [OF creat hdr packs])
  have res: "fst (write_snnue pack fs path n h rows bs ws b) = fs\<lparr>files := (files fs)(path \<mapsto> out)\<rparr>"
    "snd (write_snnue pack fs path n h rows bs ws b) =
        (if length out \<noteq> 12 + (n * h + h + h + 1) * 4 then Some ValueError else None)"
    by (simp_all only: run fst_conv snd_conv)
  have ok: "length out = 12 + (n * h + h + h + 1) * 4"
    if "snd (write_snnue pack fs path n h rows bs ws b) = None"
  proof (cases "length out = 12 + (n * h + h + h + 1) * 4")
    case True
    then show ?thesis .
  next
    case False
    then have "snd (write_snnue pack fs path n h rows bs ws b) = Some ValueError"
      unfolding res(2) by (rule if_P)
    with that show ?thesis by simp
  qed
  show ?thesis
    apply (rule exI [of _ out])
    apply (intro conjI impI)
       apply (rule res(1))
      apply (erule ok)
     apply (rule lo)
    apply (rule res(2))
    done
next
  case False
  from write_snnue_shape [OF creat, of pack n h rows bs ws b]
  obtain out r where run: "write_snnue pack fs path n h rows bs ws b = (fs\<lparr>files := (files fs)(path \<mapsto> out)\<rparr>, r)"
    and ok: "r = None \<longrightarrow> length out = 12 + (n * h + h + h + 1) * 4"
    by blast
  show ?thesis
  proof (intro exI [of _ out] conjI)
    show "fst (write_snnue pack fs path n h rows bs ws b) = fs\<lparr>files := (files fs)(path \<mapsto> out)\<rparr>"
      by (simp only: run fst_conv)
    show "snd (write_snnue pack fs path n h rows bs ws b) = None \<longrightarrow> length out = 12 + (n * h + h + h + 1) * 4"
      unfolding run snd_conv by (rule ok)
    show "n \<le> 65535 \<and> h \<le> 65535 \<and> (\<forall>v \<in> set (concat rows @ bs @ ws @ [b]). pack v \<noteq> None) \<longrightarrow>
            length out = 12 + 4 * (length (concat rows) + length bs + length ws + 1)
          \<and> snd (write_snnue pack fs path n h rows bs ws b) =
              (if length out \<noteq> 12 + (n * h + h + h + 1) * 4 then Some ValueError else None)"
      using False by (simp only: simp_thms)
  qed
qed



theorem write_snnue_roundtrip_witness:
  "\<exists>out. write_snnue Some \<lparr>files = Map.empty, can_create = (\<lambda>p. True)\<rparr> ''weights/net.snnue'' 768 64
            (replicate 768 (replicate 64 (0x3C23D70A :: 32 word))) (replicate 64 0) (replicate 64 1) 0
          = (\<lparr>files = Map.empty, can_create = (\<lambda>p. True)\<rparr>
               \<lparr>files := (files \<lparr>files = Map.empty, can_create = (\<lambda>p. True)\<rparr>)(''weights/net.snnue'' \<mapsto> out)\<rparr>, None)
       \<and> length out = 12 + (768 * 64 + 64 + 64 + 1) * 4"
proof -
  let ?fs = "\<lparr>files = Map.empty, can_create = (\<lambda>p. True)\<rparr>"
  let ?rows = "replicate 768 (replicate 64 (0x3C23D70A :: 32 word))"
  have h1: "can_create ?fs ''weights/net.snnue''" by simp
  have h2: "(768::nat) \<le> 65535" "(64::nat) \<le> 65535" by simp_all
  have h3: "length ?rows = 768" "\<forall>row \<in> set ?rows. length row = 64"
    "length (replicate 64 (0 :: 32 word)) = 64" "length (replicate 64 (1 :: 32 word)) = 64"
    by simp_all
  have h4: "\<forall>v \<in> set (concat ?rows @ replicate 64 0 @ replicate 64 1 @ [0]). Some v \<noteq> None"
    by simp
  from write_snnue_roundtrip [OF h1 h2 h3 h4] obtain out where
    "write_snnue Some ?fs ''weights/net.snnue'' 768 64 ?rows (replicate 64 0) (replicate 64 1) 0
       = (?fs\<lparr>files := (files ?fs)(''weights/net.snnue'' \<mapsto> out)\<rparr>, None)
     \<and> length out = 12 + (768 * 64 + 64 + 64 + 1) * 4
     \<and> take 12 out = MAGIC @ le16 768 @ le16 64 @ le16 VERSION @ le16 FLAGS
     \<and> map Some (decode_floats (drop 12 out)) = map Some (concat ?rows @ replicate 64 0 @ replicate 64 1 @ [0])"
    ..
  then have "write_snnue Some ?fs ''weights/net.snnue'' 768 64 ?rows (replicate 64 0) (replicate 64 1) 0
       = (?fs\<lparr>files := (files ?fs)(''weights/net.snnue'' \<mapsto> out)\<rparr>, None)
     \<and> length out = 12 + (768 * 64 + 64 + 64 + 1) * 4"
    by (elim conjE, intro conjI)
  then show ?thesis ..
qed

theorem write_snnue_leaves_file_witness:
  "\<exists>out. fst (write_snnue Some \<lparr>files = Map.empty, can_create = (\<lambda>p. True)\<rparr> ''weights/net.snnue'' 768 64
                 [[0, 1]] [] [] (0 :: 32 word))
            = \<lparr>files = [''weights/net.snnue'' \<mapsto> out], can_create = (\<lambda>p. True)\<rparr>
        \<and> length out = 24
        \<and> snd (write_snnue Some \<lparr>files = Map.empty, can_create = (\<lambda>p. True)\<rparr> ''weights/net.snnue'' 768 64
                 [[0, 1]] [] [] (0 :: 32 word)) = Some ValueError"
  using write_snnue_leaves_file [of "\<lparr>files = Map.empty, can_create = (\<lambda>p. True)\<rparr>" "''weights/net.snnue''"
      Some 768 64 "[[0, 1]]" "[]" "[]" 0]
  by auto

text \<open>
  Claim C1 as stated fails: with shapes 768 and 64 and no parameters but \<open>b2\<close>, the call
  raises \<^verbatim>\<open>ValueError\<close> and the path holds a file of 16 bytes, not of the expected length.
\<close>

theorem write_snnue_mismatch_file_left:
  "write_snnue Some \<lparr>files = Map.empty, can_create = (\<lambda>p. True)\<rparr> ''weights/net.snnue'' 768 64
     [] [] [] (0 :: 32 word)
   = (\<lparr>files = [''weights/net.snnue'' \<mapsto> MAGIC @ le16 768 @ le16 64 @ le16 1 @ le16 0 @ le32 0],
       can_create = (\<lambda>p. True)\<rparr>, Some ValueError)
   \<and> length (MAGIC @ le16 768 @ le16 64 @ le16 1 @ le16 0 @ le32 0) = 16
   \<and> (16 :: nat) \<noteq> 12 + (768 * 64 + 64 + 64 + 1) * 4"
  by (simp add: write_snnue_def pack_header_def VERSION_def FLAGS_def MAGIC_def le16_def le32_def)

section \<open>The splitter\<close>

lemma cutoff_eq: "nat \<lfloor>real n * (9 / 10)\<rfloor> = 9 * n div 10"
proof -
  have "real n * (9 / 10) = real (9 * n) / real 10" by simp
  then have "\<lfloor>real n * (9 / 10)\<rfloor> = int (9 * n div 10)"
    by (simp only: floor_divide_of_nat_eq)
  then show ?thesis by simp
qed

lemma split_by_game_eq:
  "split_by_game shuffle xs seed =
     (filter (\<lambda>s. gameId s \<in> set (take (9 * length (shuffle seed (sort (remdups (map gameId xs)))) div 10)
                                         (shuffle seed (sort (remdups (map gameId xs)))))) xs,
      filter (\<lambda>s. gameId s \<notin> set (take (9 * length (shuffle seed (sort (remdups (map gameId xs)))) div 10)
                                         (shuffle seed (sort (remdups (map gameId xs)))))) xs)"
  unfolding split_by_game_def Let_def cutoff_eq by (rule refl)

lemma split_by_game_group:
  assumes perm: "mset (shuffle seed (sorted_list_of_set (gameId ` set xs)))
                 = mset (sorted_list_of_set (gameId ` set xs))"
  shows "split_by_game shuffle xs seed =
           (filter (\<lambda>s. gameId s \<in> spec_train_group shuffle xs seed) xs,
            filter (\<lambda>s. gameId s \<notin> spec_train_group shuffle xs seed) xs)
       \<and> spec_train_group shuffle xs seed \<subseteq> gameId ` set xs
       \<and> card (spec_train_group shuffle xs seed) = 9 * card (gameId ` set xs) div 10
       \<and> mset (fst (split_by_game shuffle xs seed)) + mset (snd (split_by_game shuffle xs seed)) = mset xs
       \<and> gameId ` set (fst (split_by_game shuffle xs seed))
           \<inter> gameId ` set (snd (split_by_game shuffle xs seed)) = {}"
proof -
  define games where "games = sorted_list_of_set (gameId ` set xs)"
  define order where "order = shuffle seed games"
  define G where "G = card (gameId ` set xs)"
  have games: "sort (remdups (map gameId xs)) = games"
    by (simp add: games_def sorted_list_of_set_sort_remdups [symmetric])
  have dg: "distinct games" and sg: "set games = gameId ` set xs"
    by (simp_all add: games_def)
  have lg: "length games = G"
    unfolding G_def sg [symmetric] using dg by (rule distinct_card [symmetric])
  from perm have mo: "mset order = mset games"
    by (simp add: order_def games_def)
  have lo: "length order = G"
    using mset_eq_length [OF mo] lg by simp
  have so: "set order = gameId ` set xs"
    using mset_eq_setD [OF mo] sg by simp
  have d: "distinct order"
    using mset_eq_imp_distinct_iff [OF mo] dg by simp
  have grp: "spec_train_group shuffle xs seed = set (take (9 * G div 10) order)"
    by (simp add: spec_train_group_def G_def order_def games_def)
  have sub: "spec_train_group shuffle xs seed \<subseteq> gameId ` set xs"
    unfolding grp so [symmetric] by (rule set_take_subset)
  have "length (take (9 * G div 10) order) = 9 * G div 10"
    unfolding lo length_take by simp
  moreover have "distinct (take (9 * G div 10) order)"
    using d by (rule distinct_take)
  ultimately have crd: "card (spec_train_group shuffle xs seed) = 9 * G div 10"
    unfolding grp using distinct_card by fastforce
  have eq: "split_by_game shuffle xs seed =
      (filter (\<lambda>s. gameId s \<in> spec_train_group shuffle xs seed) xs,
       filter (\<lambda>s. gameId s \<notin> spec_train_group shuffle xs seed) xs)"
    unfolding grp split_by_game_eq games order_def [symmetric] lo by (rule refl)
  have part: "mset (fst (split_by_game shuffle xs seed)) + mset (snd (split_by_game shuffle xs seed)) = mset xs"
    unfolding eq fst_conv snd_conv by simp
  have disj: "gameId ` set (fst (split_by_game shuffle xs seed))
      \<inter> gameId ` set (snd (split_by_game shuffle xs seed)) = {}"
    unfolding eq fst_conv snd_conv by auto
  show ?thesis
    using eq sub crd [unfolded G_def] part disj by (intro conjI)
qed

text \<open>
  Claim C6. Let \<open>G\<close> be the number of distinct game identifiers and let the shuffle
  rearrange their sorted list. Then \<^verbatim>\<open>split_by_game\<close> puts into the train set exactly the
  samples whose game is among the first \<open>\<lfloor>0.9 G\<rfloor>\<close> identifiers of the shuffled list, and
  all other samples into the validation set; that training group has \<open>\<lfloor>0.9 G\<rfloor>\<close> games;
  the two sets together are the samples; and no game identifier occurs in both.
\<close>

theorem split_by_game_partition:
  assumes perm: "mset (shuffle seed (sorted_list_of_set (gameId ` set xs)))
                 = mset (sorted_list_of_set (gameId ` set xs))"
  shows "split_by_game shuffle xs seed =
           (filter (\<lambda>s. gameId s \<in> spec_train_group shuffle xs seed) xs,
            filter (\<lambda>s. gameId s \<notin> spec_train_group shuffle xs seed) xs)
       \<and> spec_train_group shuffle xs seed \<subseteq> gameId ` set xs
       \<and> card (spec_train_group shuffle xs seed) = 9 * card (gameId ` set xs) div 10
       \<and> mset (fst (split_by_game shuffle xs seed)) + mset (snd (split_by_game shuffle xs seed)) = mset xs
       \<and> gameId ` set (fst (split_by_game shuffle xs seed))
           \<inter> gameId ` set (snd (split_by_game shuffle xs seed)) = {}"
  using perm by (rule split_by_game_group)

theorem split_by_game_partition_witness:
  "split_by_game (\<lambda>seed ids. rev ids)
     [\<lparr>features = [8], label = Fin 30, label16 = None, gameId = 1\<rparr>,
      \<lparr>features = [9], label = Fin 10, label16 = None, gameId = 2\<rparr>,
      \<lparr>features = [8], label = Fin 20, label16 = None, gameId = 1\<rparr>] 1337
   = ([\<lparr>features = [9], label = Fin 10, label16 = None, gameId = 2\<rparr>],
      [\<lparr>features = [8], label = Fin 30, label16 = None, gameId = 1\<rparr>,
       \<lparr>features = [8], label = Fin 20, label16 = None, gameId = 1\<rparr>])"
proof -
  let ?xs = "[\<lparr>features = [8], label = Fin 30, label16 = None, gameId = 1\<rparr>,
      \<lparr>features = [9], label = Fin 10, label16 = None, gameId = 2\<rparr>,
      \<lparr>features = [8], label = Fin 20, label16 = None, gameId = 1\<rparr>]"
  have perm: "mset (rev (sorted_list_of_set (gameId ` set ?xs))) = mset (sorted_list_of_set (gameId ` set ?xs))"
    by simp
  have "gameId ` set ?xs = set [1, 2, 1]" by simp
  then have sl: "sorted_list_of_set (gameId ` set ?xs) = [1, 2]"
    by (simp only: sorted_list_of_set_sort_remdups) simp
  have "gameId ` set ?xs = {1, 2}" by auto
  then have c: "card (gameId ` set ?xs) = 2" by simp
  have grp: "spec_train_group (\<lambda>seed ids. rev ids) ?xs 1337 = {2}"
    unfolding spec_train_group_def sl c by simp
  from split_by_game_partition [of "\<lambda>seed ids. rev ids" 1337 ?xs, OF perm]
  show ?thesis unfolding grp by simp
qed

text \<open>
  Claim C10. When every sample of a non-empty list has the same game identifier, the
  cutoff is \<open>\<lfloor>0.9\<rfloor> = 0\<close>: the train set is empty and the validation set is the whole
  list. The pass over the empty train set returns the model as it was, so an epoch
  changes no parameter.
\<close>

theorem split_by_game_single_game:
  assumes ne: "xs \<noteq> []" and one: "\<forall>s \<in> set xs. gameId s = g"
    and perm: "mset (shuffle seed (sorted_list_of_set (gameId ` set xs)))
               = mset (sorted_list_of_set (gameId ` set xs))"
  shows "split_by_game shuffle xs seed = ([], xs)
       \<and> train_pass F rate delta (fst (split_by_game shuffle xs seed)) m t = Inr (m, t)
       \<and> (\<forall>m' l. train_epoch F rate delta (fst (split_by_game shuffle xs seed)) m = Inr (m', l) \<longrightarrow> m' = m)"
proof -
  from ne one have "gameId ` set xs = {g}" by (cases xs) auto
  then have c: "card (gameId ` set xs) = 1" by simp
  have "spec_train_group shuffle xs seed = {}"
    by (simp add: spec_train_group_def c)
  with split_by_game_group [of shuffle seed xs, OF perm]
  have eq: "split_by_game shuffle xs seed = ([], xs)"
    by simp
  have "train_pass F rate delta (fst (split_by_game shuffle xs seed)) m t = Inr (m, t)"
    unfolding eq by simp
  moreover have "\<forall>m' l. train_epoch F rate delta (fst (split_by_game shuffle xs seed)) m = Inr (m', l) \<longrightarrow> m' = m"
    unfolding eq by (auto simp: train_epoch_def split: option.splits)
  ultimately show ?thesis using eq by simp
qed

theorem split_by_game_single_game_witness:
  "split_by_game (\<lambda>seed ids. rev ids)
     [\<lparr>features = [8], label = Fin 30, label16 = None, gameId = 7\<rparr>,
      \<lparr>features = [9], label = Fin 10, label16 = None, gameId = 7\<rparr>] 1337
   = ([], [\<lparr>features = [8], label = Fin 30, label16 = None, gameId = 7\<rparr>,
           \<lparr>features = [9], label = Fin 10, label16 = None, gameId = 7\<rparr>])"
proof -
  let ?xs = "[\<lparr>features = [8], label = Fin 30, label16 = None, gameId = 7\<rparr>,
      \<lparr>features = [9], label = Fin 10, label16 = None, gameId = 7\<rparr>]"
  have ne: "?xs \<noteq> []" by simp
  have one: "\<forall>s \<in> set ?xs. gameId s = 7" by simp
  have perm: "mset (rev (sorted_list_of_set (gameId ` set ?xs))) = mset (sorted_list_of_set (gameId ` set ?xs))"
    by simp
  from split_by_game_single_game [of ?xs 7 "\<lambda>seed ids. rev ids" 1337, OF ne one perm]
  show ?thesis by (rule conjunct1)
qed

section \<open>The label of a sample\<close>

lemma load_engine_color_valid:
  "load_engine_color env run game ch = (Inr c, ch') \<Longrightarrow> ch (run, game) = None \<Longrightarrow> c = ''w'' \<or> c = ''b''"
  by (auto simp: load_engine_color_def split: option.splits if_splits)

lemma signed_label_Inr:
  "signed_label F c v = Inr l \<Longrightarrow> \<exists>x. py_float F v = Inr x \<and> l = (if c = ''w'' then x else fneg F x)"
  by (auto simp: signed_label_def split: sum.splits)

text \<open>
  Claim C8. When \<^verbatim>\<open>load_samples\<close> accepts a row, it appends one sample; its label is
  \<^verbatim>\<open>float(evalCp)\<close> when the engine colour resolved for the run and game is \<^verbatim>\<open>"w"\<close>, and
  the negation of that otherwise, which is when the colour is \<^verbatim>\<open>"b"\<close> (a colour read from
  the annotated file is one of the two); \<^verbatim>\<open>label16\<close> is absent when \<^verbatim>\<open>evalCp16\<close> is, and
  else follows the same rule. In exact arithmetic, \<^verbatim>\<open>evalCp = 120\<close> with colour \<^verbatim>\<open>"b"\<close> gives
  the label \<open>- 120\<close>.
\<close>

theorem process_row_label:
  assumes acc: "process_row F env tm st r = Inr (st', True)"
  shows "(\<exists>game run eval_cp c x s.
            row_gameId r = Some game \<and> row_runId r = Some run \<and> row_evalCp r = Some eval_cp
          \<and> fst (load_engine_color env run game (cache st)) = Inr c
          \<and> (cache st (run, game) = None \<longrightarrow> c = ''w'' \<or> c = ''b'')
          \<and> py_float F eval_cp = Inr x
          \<and> samples st' = samples st @ [s]
          \<and> gameId s = game
          \<and> (c = ''w'' \<longrightarrow> label s = x)
          \<and> (c \<noteq> ''w'' \<longrightarrow> label s = fneg F x)
          \<and> (case row_evalCp16 r of
                None \<Rightarrow> label16 s = None
              | Some eval_cp16 \<Rightarrow>
                  (\<exists>x16. py_float F eval_cp16 = Inr x16
                       \<and> label16 s = Some (if c = ''w'' then x16 else fneg F x16))))
       \<and> signed_label exact_ops ''b'' (JInt 120) = Inr (Fin (- 120))
       \<and> signed_label exact_ops ''w'' (JInt 120) = Inr (Fin 120)"
proof -
  from acc obtain game where g: "row_gameId r = Some game"
    by (cases "row_gameId r") (simp_all add: process_row_def)
  from acc g obtain run where ru: "row_runId r = Some run" and rne: "run \<noteq> []"
    by (cases "row_runId r") (simp_all add: process_row_def split: if_splits)
  define tc where "tc = (case tm of
        Some _ \<Rightarrow> timeout_cache st
      | None \<Rightarrow> (case timeout_cache st run of
                   Some _ \<Rightarrow> timeout_cache st
                 | None \<Rightarrow> (timeout_cache st)(run \<mapsto> (case run_summary env run of None \<Rightarrow> [] | Some d \<Rightarrow> d))))"
  define st1 where "st1 = st\<lparr>timeout_cache := tc\<rparr>"
  have c1: "cache st1 = cache st" and s1: "samples st1 = samples st"
    by (simp_all add: st1_def)
  from acc g ru rne obtain eval_cp where ev: "row_evalCp r = Some eval_cp" and mi: "row_mateIn r = None"
    and rest: "(case load_engine_color env run game (cache st1) of
          (Inl e, _) \<Rightarrow> Inl e
        | (Inr engine_color, ch) \<Rightarrow>
            (case signed_label F engine_color eval_cp of
               Inl e \<Rightarrow> Inl e
             | Inr lbl \<Rightarrow>
                 (case row_fen r of
                    None \<Rightarrow> Inl KeyError
                  | Some fen \<Rightarrow>
                      (case fen_to_features fen of
                         Inl e \<Rightarrow> Inl e
                       | Inr feats \<Rightarrow>
                           (case (case row_evalCp16 r of
                                    None \<Rightarrow> Inr None
                                  | Some eval_cp16 \<Rightarrow>
                                      (case signed_label F engine_color eval_cp16 of
                                         Inl e \<Rightarrow> Inl e
                                       | Inr l16 \<Rightarrow> Inr (Some l16))) of
                              Inl e \<Rightarrow> Inl e
                            | Inr lbl16 \<Rightarrow>
                                Inr (st1\<lparr>cache := ch,
                                         samples := samples st1 @
                                           [\<lparr>features = feats, label = lbl,
                                             label16 = lbl16, gameId = game\<rparr>]\<rparr>,
                                     True)))))) = Inr (st', True)"
    unfolding process_row_def g ru tc_def st1_def
    by (cases "row_evalCp r"; cases "row_mateIn r") (simp_all add: Let_def split: if_splits)
  obtain cr ch where lec: "load_engine_color env run game (cache st1) = (cr, ch)"
    by (cases "load_engine_color env run game (cache st1)")
  from rest lec obtain c where cr: "cr = Inr c"
    by (cases cr) simp_all
  from rest lec cr obtain lbl where sl: "signed_label F c eval_cp = Inr lbl"
    by (cases "signed_label F c eval_cp") simp_all
  from rest lec cr sl obtain fen where fe: "row_fen r = Some fen"
    by (cases "row_fen r") simp_all
  from rest lec cr sl fe obtain feats where ff: "fen_to_features fen = Inr feats"
    by (cases "fen_to_features fen") simp_all
  define l16 where "l16 = (case row_evalCp16 r of
        None \<Rightarrow> Inr None
      | Some eval_cp16 \<Rightarrow>
          (case signed_label F c eval_cp16 of Inl e \<Rightarrow> Inl e | Inr l16 \<Rightarrow> Inr (Some l16)))"
  from rest lec cr sl fe ff obtain lbl16 where l16: "l16 = Inr lbl16"
    and st': "st' = st1\<lparr>cache := ch, samples := samples st1 @
        [\<lparr>features = feats, label = lbl, label16 = lbl16, gameId = game\<rparr>]\<rparr>"
    unfolding l16_def by (cases "case row_evalCp16 r of
        None \<Rightarrow> Inr None
      | Some eval_cp16 \<Rightarrow>
          (case signed_label F c eval_cp16 of Inl e \<Rightarrow> Inl e | Inr l16 \<Rightarrow> Inr (Some l16))") simp_all
  define s where "s = \<lparr>features = feats, label = lbl, label16 = lbl16, gameId = game\<rparr>"
  from signed_label_Inr [OF sl] obtain x where x: "py_float F eval_cp = Inr x"
    and lx: "lbl = (if c = ''w'' then x else fneg F x)"
    by blast
  have col: "fst (load_engine_color env run game (cache st)) = Inr c"
    using lec cr c1 by simp
  have valid: "cache st (run, game) = None \<longrightarrow> c = ''w'' \<or> c = ''b''"
    using load_engine_color_valid [of env run game "cache st" c ch] lec cr c1 by simp
  have sam: "samples st' = samples st @ [s]"
    by (simp add: st' s1 s_def)
  have lab16: "case row_evalCp16 r of
      None \<Rightarrow> label16 s = None
    | Some eval_cp16 \<Rightarrow>
        (\<exists>x16. py_float F eval_cp16 = Inr x16 \<and> label16 s = Some (if c = ''w'' then x16 else fneg F x16))"
  proof (cases "row_evalCp16 r")
    case None
    with l16 show ?thesis by (simp add: l16_def s_def)
  next
    case (Some e16)
    with l16 obtain v where v: "signed_label F c e16 = Inr v" and lv: "lbl16 = Some v"
      by (cases "signed_label F c e16") (auto simp: l16_def)
    from signed_label_Inr [OF v] lv Some show ?thesis by (auto simp: s_def)
  qed
  have conc: "signed_label exact_ops ''b'' (JInt 120) = Inr (Fin (- 120))"
    "signed_label exact_ops ''w'' (JInt 120) = Inr (Fin 120)"
    by (simp_all add: signed_label_def exact_ops_def)
  have "\<exists>game run eval_cp c x s.
            row_gameId r = Some game \<and> row_runId r = Some run \<and> row_evalCp r = Some eval_cp
          \<and> fst (load_engine_color env run game (cache st)) = Inr c
          \<and> (cache st (run, game) = None \<longrightarrow> c = ''w'' \<or> c = ''b'')
          \<and> py_float F eval_cp = Inr x
          \<and> samples st' = samples st @ [s]
          \<and> gameId s = game
          \<and> (c = ''w'' \<longrightarrow> label s = x)
          \<and> (c \<noteq> ''w'' \<longrightarrow> label s = fneg F x)
          \<and> (case row_evalCp16 r of
                None \<Rightarrow> label16 s = None
              | Some eval_cp16 \<Rightarrow>
                  (\<exists>x16. py_float F eval_cp16 = Inr x16
                       \<and> label16 s = Some (if c = ''w'' then x16 else fneg F x16)))"
    apply (rule exI [of _ game], rule exI [of _ run], rule exI [of _ eval_cp])
    apply (rule exI [of _ c], rule exI [of _ x], rule exI [of _ s])
    using g ru ev col valid x sam lab16 lx
    apply (simp add: s_def)
    done
  with conc show ?thesis by (intro conjI)
qed

theorem process_row_label_witness:
  "process_row exact_ops \<lparr>run_summary = (\<lambda>run. None), annotated = (\<lambda>run game. Some (Some ''b''))\<rparr> (Some [])
     \<lparr>cache = Map.empty, timeout_cache = Map.empty, samples = [],
      skips = \<lparr>timeoutGame = 0, timeoutNearby = 0, mate = 0, missingTimeoutSummary = 0\<rparr>\<rparr>
     \<lparr>row_gameId = Some 3, row_runId = Some ''run-a'', row_timeoutNearby = False,
      row_evalCp = Some (JInt 120), row_mateIn = None,
      row_fen = Some ''4k3/8/8/8/8/8/P7/4K3 w - - 0 1'', row_evalCp16 = Some (JInt 118)\<rparr>
   = Inr (\<lparr>cache = [(''run-a'', 3) \<mapsto> ''b''], timeout_cache = Map.empty,
           samples = [\<lparr>features = [708, 8, 324], label = Fin (- 120), label16 = Some (Fin (- 118)),
                       gameId = 3\<rparr>],
           skips = \<lparr>timeoutGame = 0, timeoutNearby = 0, mate = 0, missingTimeoutSummary = 0\<rparr>\<rparr>, True)"
proof -
  have fen: "fen_to_features ''4k3/8/8/8/8/8/P7/4K3 w - - 0 1'' = Inr [708, 8, 324]"
    by code_simp
  have run: "process_row exact_ops \<lparr>run_summary = (\<lambda>run. None), annotated = (\<lambda>run game. Some (Some ''b''))\<rparr> (Some [])
     \<lparr>cache = Map.empty, timeout_cache = Map.empty, samples = [],
      skips = \<lparr>timeoutGame = 0, timeoutNearby = 0, mate = 0, missingTimeoutSummary = 0\<rparr>\<rparr>
     \<lparr>row_gameId = Some 3, row_runId = Some ''run-a'', row_timeoutNearby = False,
      row_evalCp = Some (JInt 120), row_mateIn = None,
      row_fen = Some ''4k3/8/8/8/8/8/P7/4K3 w - - 0 1'', row_evalCp16 = Some (JInt 118)\<rparr>
   = Inr (\<lparr>cache = [(''run-a'', 3) \<mapsto> ''b''], timeout_cache = Map.empty,
           samples = [\<lparr>features = [708, 8, 324], label = Fin (- 120), label16 = Some (Fin (- 118)),
                       gameId = 3\<rparr>],
           skips = \<lparr>timeoutGame = 0, timeoutNearby = 0, mate = 0, missingTimeoutSummary = 0\<rparr>\<rparr>, True)"
    by (simp add: process_row_def load_engine_color_def signed_label_def exact_ops_def fen)
  from process_row_label [OF run] run show ?thesis by simp
qed

end
